theory Spec2Isabelle
  imports Main "HOL-Library.Multiset" "HOL-Library.Signed_Division"
begin

section \<open>Python values and exceptions\<close>

text \<open>
  The values that \<^verbatim>\<open>response.json()\<close> and \<^verbatim>\<open>json.loads\<close> hand to the program.
  A JSON object is an association list with the keys in document order. JSON numbers
  with a fraction or an exponent (Python floats) are outside the model. A \<^verbatim>\<open>str\<close> is
  modelled by its bytes under UTF-8 with the \<^verbatim>\<open>surrogatepass\<close> handler, so that a lone
  surrogate, which \<^verbatim>\<open>json.loads\<close> accepts and the strict codec refuses, is the three
  bytes \<^verbatim>\<open>ED A0..BF 80..BF\<close>. Where the model takes a string apart (by an index, in a
  loop) it does so byte by byte; the program subscripts every such part with a key, which
  any string refuses.
\<close>

datatype json =
    JNull
  | JBool bool
  | JInt int
  | JStr string
  | JList "json list"
  | JObj "(string \<times> json) list"

text \<open>Every raise of the source is a value of this type; \<open>Inl\<close> carries it.\<close>

datatype error =
    KeyError string
  | IndexError
  | TypeError
  | AttributeError
  | AssertionError
  | ValueError
  | HTTPError int
  | JSONDecodeError
  | ConnectionError
  | OSError
  | UnicodeEncodeError

fun and_then :: "error + 'a \<Rightarrow> ('a \<Rightarrow> error + 'b) \<Rightarrow> error + 'b" where
  "and_then (Inl e) f = Inl e"
| "and_then (Inr x) f = f x"

text \<open>\<^verbatim>\<open>obj[key]\<close> with a string key: only a dict accepts it.\<close>

fun getitem :: "json \<Rightarrow> string \<Rightarrow> error + json" where
  "getitem (JObj kvs) k = (case map_of kvs k of Some v \<Rightarrow> Inr v | None \<Rightarrow> Inl (KeyError k))"
| "getitem _ k = Inl TypeError"

text \<open>
  The position that the integer index \<open>i\<close> names in a sequence of \<open>n\<close> elements,
  if any: a negative index counts from the end.
\<close>

definition position :: "nat \<Rightarrow> int \<Rightarrow> nat option" where
  "position n i =
     (if 0 \<le> i \<and> i < int n then Some (nat i)
      else if i < 0 \<and> - int n \<le> i then Some (nat (int n + i))
      else None)"

text \<open>
  \<^verbatim>\<open>obj[i]\<close> with an integer index: a list or a string is indexed, a dict parsed from
  JSON has string keys only, anything else is not subscriptable.
\<close>

fun getitem_int :: "json \<Rightarrow> int \<Rightarrow> error + json" where
  "getitem_int (JList xs) i =
     (case position (length xs) i of Some k \<Rightarrow> Inr (xs ! k) | None \<Rightarrow> Inl IndexError)"
| "getitem_int (JStr s) i =
     (case position (length s) i of Some k \<Rightarrow> Inr (JStr [s ! k]) | None \<Rightarrow> Inl IndexError)"
| "getitem_int (JObj kvs) i = Inl (KeyError ''<int>'')"
| "getitem_int _ i = Inl TypeError"

text \<open>\<^verbatim>\<open>obj.get(key)\<close>: a method of dict only; a missing key gives \<^verbatim>\<open>None\<close>.\<close>

fun get_method :: "json \<Rightarrow> string \<Rightarrow> error + json" where
  "get_method (JObj kvs) k = Inr (case map_of kvs k of Some v \<Rightarrow> v | None \<Rightarrow> JNull)"
| "get_method _ k = Inl AttributeError"

text \<open>\<^verbatim>\<open>for x in obj\<close>: the elements of a list, the keys of a dict, the characters of a string.\<close>

fun iterate :: "json \<Rightarrow> error + json list" where
  "iterate (JList xs) = Inr xs"
| "iterate (JObj kvs) = Inr (map (\<lambda>kv. JStr (fst kv)) kvs)"
| "iterate (JStr s) = Inr (map (\<lambda>c. JStr [c]) s)"
| "iterate _ = Inl TypeError"

text \<open>Truth value of an object, as \<^verbatim>\<open>not x\<close> tests it.\<close>

fun truthy :: "json \<Rightarrow> bool" where
  "truthy JNull = False"
| "truthy (JBool b) = b"
| "truthy (JInt n) = (n \<noteq> 0)"
| "truthy (JStr s) = (s \<noteq> [])"
| "truthy (JList xs) = (xs \<noteq> [])"
| "truthy (JObj kvs) = (kvs \<noteq> [])"

text \<open>An \<^verbatim>\<open>int\<close> operand of a comparison or of \<^verbatim>\<open>//\<close>: \<^verbatim>\<open>bool\<close> is a subclass of \<^verbatim>\<open>int\<close>.\<close>

fun int_operand :: "json \<Rightarrow> error + int" where
  "int_operand (JInt n) = Inr n"
| "int_operand (JBool b) = Inr (if b then 1 else 0)"
| "int_operand _ = Inl TypeError"

section \<open>Constants and data model\<close>

definition MAX_REVIEWS :: int where
  "MAX_REVIEWS = 5200"

definition REVIEWS_PER_PAGE :: int where
  "REVIEWS_PER_PAGE = 10"

text \<open>
  The dataclasses. A dataclass does not check the annotated types, so a field holds
  whatever value the remote record had.
\<close>

record DeveloperResponse =
  developer_id :: json
  body :: json
  modified :: json

record Review =
  user_name :: json
  title :: json
  review :: json
  is_edited :: json
  last_update :: json
  rating :: json
  developer_response :: "DeveloperResponse option"

section \<open>The remote service and the HTTP session\<close>

text \<open>
  The three requests the program sends: the landing page of the app (name, id), the app
  info (name, id, bearer token) and one page of reviews (name, id, bearer token, offset).
\<close>

datatype request =
    GetLanding string int
  | GetAppInfo string int json
  | GetReviews string int json int

text \<open>
  What the program reads of a response: the status, \<^verbatim>\<open>response.json()\<close> (\<open>None\<close>: the
  body is not JSON) and, for the landing page, the decoded content of the meta element
  \<^verbatim>\<open>web-experience-app/config/environment\<close> (\<open>Inl\<close>: the element or its content
  attribute is absent, or the content is not JSON).
\<close>

record response =
  status_code :: int
  json_body :: "json option"
  meta_config :: "error + json"

text \<open>The remote service answers a request or the transport raises.\<close>

record world =
  http :: "request \<Rightarrow> error + response"

definition raise_for_status :: "response \<Rightarrow> error + unit" where
  "raise_for_status r =
     (if 400 \<le> status_code r \<and> status_code r < 600 then Inl (HTTPError (status_code r))
      else Inr ())"

text \<open>
  The parser object. Its HTTP session is modelled by the requests sent through it so far,
  oldest first. Log output is not modelled: no logging call of the source can raise.
\<close>

record AppStoreParser =
  app_name :: string
  app_id :: int
  session :: "request list"
  auth_token :: json

definition AppStoreParser_init :: "string \<Rightarrow> int \<Rightarrow> AppStoreParser" where
  "AppStoreParser_init name ident =
     \<lparr>app_name = name, app_id = ident, session = [], auth_token = JNull\<rparr>"

text \<open>\<^verbatim>\<open>session.get\<close>: the request is sent, then the answer arrives or the transport raises.\<close>

definition session_get :: "world \<Rightarrow> request \<Rightarrow> AppStoreParser \<Rightarrow> (error + response) \<times> AppStoreParser" where
  "session_get w req p = (http w req, p\<lparr>session := session p @ [req]\<rparr>)"

text \<open>\<^verbatim>\<open>AppStoreParser._auth\<close> (the leading underscore is written \<open>u_\<close>).\<close>

definition u_auth :: "world \<Rightarrow> AppStoreParser \<Rightarrow> (error + unit) \<times> AppStoreParser" where
  "u_auth w p =
     (case session_get w (GetLanding (app_name p) (app_id p)) p of
        (Inl e, p1) \<Rightarrow> (Inl e, p1)
      | (Inr resp, p1) \<Rightarrow>
          (case and_then (meta_config resp) (\<lambda>app_data.
                  and_then (getitem app_data ''MEDIA_API'') (\<lambda>media. getitem media ''token'')) of
             Inl e \<Rightarrow> (Inl e, p1)
           | Inr tok \<Rightarrow> (Inr (), p1\<lparr>auth_token := tok\<rparr>)))"

text \<open>The decorator \<^verbatim>\<open>auth_required\<close>: authenticate when no token is held, then call.\<close>

definition auth_required ::
  "(world \<Rightarrow> AppStoreParser \<Rightarrow> (error + 'a) \<times> AppStoreParser) \<Rightarrow>
   world \<Rightarrow> AppStoreParser \<Rightarrow> (error + 'a) \<times> AppStoreParser" where
  "auth_required func w p =
     (if \<not> truthy (auth_token p) then
        (case u_auth w p of
           (Inl e, p1) \<Rightarrow> (Inl e, p1)
         | (Inr _, p1) \<Rightarrow> func w p1)
      else func w p)"

text \<open>\<^verbatim>\<open>get_app_info\<close>, the decorated body first.\<close>

definition get_app_info_body :: "world \<Rightarrow> AppStoreParser \<Rightarrow> (error + json) \<times> AppStoreParser" where
  "get_app_info_body w p =
     (case session_get w (GetAppInfo (app_name p) (app_id p) (auth_token p)) p of
        (Inl e, p1) \<Rightarrow> (Inl e, p1)
      | (Inr resp, p1) \<Rightarrow>
          (case raise_for_status resp of
             Inl e \<Rightarrow> (Inl e, p1)
           | Inr _ \<Rightarrow>
               (case json_body resp of
                  None \<Rightarrow> (Inl JSONDecodeError, p1)
                | Some j \<Rightarrow> (Inr j, p1))))"

definition get_app_info :: "world \<Rightarrow> AppStoreParser \<Rightarrow> (error + json) \<times> AppStoreParser" where
  "get_app_info = auth_required get_app_info_body"

definition get_app_rating_count :: "world \<Rightarrow> AppStoreParser \<Rightarrow> (error + json) \<times> AppStoreParser" where
  "get_app_rating_count w p =
     (case get_app_info w p of
        (Inl e, p1) \<Rightarrow> (Inl e, p1)
      | (Inr app_info, p1) \<Rightarrow>
          (and_then (getitem app_info ''data'') (\<lambda>d.
           and_then (getitem_int d 0) (\<lambda>d0.
           and_then (getitem d0 ''attributes'') (\<lambda>app_attributes.
           and_then (getitem app_attributes ''userRating'') (\<lambda>user_rating.
           getitem user_rating ''ratingCount'')))), p1))"

section \<open>The page fetcher\<close>

text \<open>The body of the loop of \<^verbatim>\<open>_get_reviews\<close>: one record becomes one Review.\<close>

definition parse_review :: "json \<Rightarrow> error + Review" where
  "parse_review rec =
     and_then (getitem rec ''attributes'') (\<lambda>review_attrs.
     and_then (get_method review_attrs ''developerResponse'') (\<lambda>dr.
     and_then
       (if dr \<noteq> JNull then
          and_then (getitem dr ''id'') (\<lambda>i.
          and_then (getitem dr ''body'') (\<lambda>b.
          and_then (getitem dr ''modified'') (\<lambda>m.
          Inr (Some \<lparr>developer_id = i, body = b, modified = m\<rparr>))))
        else Inr None) (\<lambda>dev.
     and_then (getitem review_attrs ''userName'') (\<lambda>un.
     and_then (getitem review_attrs ''review'') (\<lambda>rv.
     and_then (getitem review_attrs ''isEdited'') (\<lambda>ed.
     and_then (getitem review_attrs ''date'') (\<lambda>dt.
     and_then (getitem review_attrs ''rating'') (\<lambda>rt.
     and_then (getitem review_attrs ''title'') (\<lambda>tl.
     Inr \<lparr>user_name = un, title = tl, review = rv, is_edited = ed, last_update = dt,
          rating = rt, developer_response = dev\<rparr>)))))))))"

text \<open>The loop itself: \<open>reviews\<close> is the list built so far; the first raise leaves the loop.\<close>

fun parse_reviews :: "json list \<Rightarrow> Review list \<Rightarrow> error + Review list" where
  "parse_reviews [] reviews = Inr reviews"
| "parse_reviews (rec # rest) reviews =
     (case parse_review rec of
        Inl e \<Rightarrow> Inl e
      | Inr r \<Rightarrow> parse_reviews rest (reviews @ [r]))"

text \<open>Everything \<^verbatim>\<open>_get_reviews\<close> does with the decoded body.\<close>

definition decode_page :: "json \<Rightarrow> error + (json \<times> Review list)" where
  "decode_page page_json =
     and_then (getitem page_json ''data'') (\<lambda>reviews_data.
     and_then (iterate reviews_data) (\<lambda>items.
     and_then (parse_reviews items []) (\<lambda>reviews.
     and_then (get_method page_json ''next'') (\<lambda>nxt.
     Inr (nxt, reviews)))))"

definition u_get_reviews_body ::
  "int \<Rightarrow> world \<Rightarrow> AppStoreParser \<Rightarrow> (error + (json \<times> Review list)) \<times> AppStoreParser" where
  "u_get_reviews_body offset w p =
     (case session_get w (GetReviews (app_name p) (app_id p) (auth_token p) offset) p of
        (Inl e, p1) \<Rightarrow> (Inl e, p1)
      | (Inr resp, p1) \<Rightarrow>
          (case raise_for_status resp of
             Inl e \<Rightarrow> (Inl e, p1)
           | Inr _ \<Rightarrow>
               (case json_body resp of
                  None \<Rightarrow> (Inl JSONDecodeError, p1)
                | Some page_json \<Rightarrow> (decode_page page_json, p1))))"

definition u_get_reviews ::
  "world \<Rightarrow> AppStoreParser \<Rightarrow> int \<Rightarrow> (error + (json \<times> Review list)) \<times> AppStoreParser" where
  "u_get_reviews w p offset = auth_required (u_get_reviews_body offset) w p"

definition page_offset :: "int \<Rightarrow> int" where
  "page_offset page = (page - 1) * REVIEWS_PER_PAGE"

definition get_reviews_page ::
  "world \<Rightarrow> AppStoreParser \<Rightarrow> int \<Rightarrow> (error + Review list) \<times> AppStoreParser" where
  "get_reviews_page w p page =
     (if \<not> page > 0 then (Inl AssertionError, p)
      else
        (case u_get_reviews w p (page_offset page) of
           (Inl e, p1) \<Rightarrow> (Inl e, p1)
         | (Inr (_, reviews), p1) \<Rightarrow> (Inr reviews, p1)))"

section \<open>The orchestrator\<close>

text \<open>
  The rating count after the clamp, and the last page: \<^verbatim>\<open>//\<close> is Python's floor
  division, which is \<open>div\<close> on \<open>int\<close>.
\<close>

definition clamp_count :: "int \<Rightarrow> int" where
  "clamp_count rating_count = (if rating_count > MAX_REVIEWS then MAX_REVIEWS else rating_count)"

definition last_page :: "json \<Rightarrow> error + int" where
  "last_page rating_count =
     and_then (int_operand rating_count) (\<lambda>n. Inr (clamp_count n div REVIEWS_PER_PAGE))"

text \<open>\<^verbatim>\<open>range(1, last_page + 1)\<close>.\<close>

definition pages_range :: "int \<Rightarrow> int list" where
  "pages_range lp = [1..lp]"

text \<open>
  The pool is modelled by the time at which each unit of work finishes:
  \<^verbatim>\<open>as_completed\<close> yields the submitted pages by finishing time, and every function
  \<open>finish\<close> is a schedule. Each unit runs as one step, in that order.
\<close>

definition as_completed :: "(int \<Rightarrow> nat) \<Rightarrow> int list \<Rightarrow> int list" where
  "as_completed finish pages = sort_key finish pages"

text \<open>The loop over the completed futures: a raise is logged and the page is dropped.\<close>

fun collect ::
  "world \<Rightarrow> int list \<Rightarrow> (int \<times> Review list) list \<Rightarrow> AppStoreParser \<Rightarrow>
   (int \<times> Review list) list \<times> AppStoreParser" where
  "collect w [] results p = (results, p)"
| "collect w (page # rest) results p =
     (case get_reviews_page w p page of
        (Inl exc, p1) \<Rightarrow> collect w rest results p1
      | (Inr reviews, p1) \<Rightarrow> collect w rest (results @ [(page, reviews)]) p1)"

text \<open>\<^verbatim>\<open>results.sort(key=itemgetter(0))\<close> and the comprehension that flattens.\<close>

definition reassemble :: "(int \<times> Review list) list \<Rightarrow> Review list" where
  "reassemble results = concat (map snd (sort_key fst results))"

text \<open>\<^verbatim>\<open>ThreadPoolExecutor(max_workers)\<close> refuses a pool without workers.\<close>

definition parse_parallel ::
  "world \<Rightarrow> (int \<Rightarrow> nat) \<Rightarrow> int \<Rightarrow> AppStoreParser \<Rightarrow> (error + Review list) \<times> AppStoreParser" where
  "parse_parallel w finish max_workers parser =
     (case get_app_rating_count w parser of
        (Inl e, p1) \<Rightarrow> (Inl e, p1)
      | (Inr rating_count, p1) \<Rightarrow>
          (case last_page rating_count of
             Inl e \<Rightarrow> (Inl e, p1)
           | Inr lp \<Rightarrow>
               (if max_workers \<le> 0 then (Inl ValueError, p1)
                else
                  (case collect w (as_completed finish (pages_range lp)) [] p1 of
                     (results, p2) \<Rightarrow> (Inr (reassemble results), p2)))))"

section \<open>The sink\<close>

text \<open>
  The values of \<^verbatim>\<open>review.__dict__\<close>: the six scalar fields hold JSON values, the
  seventh holds \<^verbatim>\<open>None\<close> or a DeveloperResponse object.
\<close>

datatype pyobj = Json json | Resp DeveloperResponse

definition fieldnames :: "string list" where
  "fieldnames = [''user_name'', ''title'', ''review'', ''is_edited'', ''last_update'', ''rating'']"

definition review_dict :: "Review \<Rightarrow> (string \<times> pyobj) list" where
  "review_dict r =
     [(''user_name'', Json (user_name r)),
      (''title'', Json (title r)),
      (''review'', Json (review r)),
      (''is_edited'', Json (is_edited r)),
      (''last_update'', Json (last_update r)),
      (''rating'', Json (rating r)),
      (''developer_response'',
         (case developer_response r of None \<Rightarrow> Json JNull | Some d \<Rightarrow> Resp d))]"

text \<open>\<^verbatim>\<open>del d[k]\<close>.\<close>

definition del_item :: "string \<Rightarrow> (string \<times> pyobj) list \<Rightarrow> error + (string \<times> pyobj) list" where
  "del_item k d =
     (case map_of d k of
        None \<Rightarrow> Inl (KeyError k)
      | Some _ \<Rightarrow> Inr (filter (\<lambda>kv. fst kv \<noteq> k) d))"

text \<open>
  \<^verbatim>\<open>csv.DictWriter\<close> with its defaults: a key outside the field names is refused
  (\<^verbatim>\<open>extrasaction='raise'\<close>), a missing one is written as the empty string.
\<close>

definition dict_to_list :: "string list \<Rightarrow> (string \<times> pyobj) list \<Rightarrow> error + pyobj list" where
  "dict_to_list names rowdict =
     (if filter (\<lambda>kv. fst kv \<notin> set names) rowdict = [] then
        Inr (map (\<lambda>k. case map_of rowdict k of Some v \<Rightarrow> v | None \<Rightarrow> Json (JStr [])) names)
      else Inl ValueError)"

text \<open>
  The text of one cell: \<^verbatim>\<open>None\<close> is empty, a string is itself, anything else goes
  through Python's \<^verbatim>\<open>str\<close>, which is the parameter \<open>py_str\<close>.
\<close>

definition cell_text :: "(pyobj \<Rightarrow> string) \<Rightarrow> pyobj \<Rightarrow> string" where
  "cell_text py_str v =
     (case v of
        Json JNull \<Rightarrow> []
      | Json (JStr s) \<Rightarrow> s
      | _ \<Rightarrow> py_str v)"

text \<open>
  The excel dialect with minimal quoting: a cell with a comma, a double quote, a carriage
  return or a line feed is quoted and its double quotes are doubled; a row ends in CR LF.
  Rows here have six cells (the rule for a row of one empty cell is not needed).
\<close>

definition needs_quotes :: "string \<Rightarrow> bool" where
  "needs_quotes s =
     (CHR '','' \<in> set s \<or> CHR 0x22 \<in> set s \<or> CHR 0x0D \<in> set s \<or> CHR 0x0A \<in> set s)"

definition quoted :: "string \<Rightarrow> string" where
  "quoted s =
     (if needs_quotes s then
        [CHR 0x22] @ concat (map (\<lambda>c. if c = CHR 0x22 then [c, c] else [c]) s) @ [CHR 0x22]
      else s)"

fun join_cells :: "string list \<Rightarrow> string" where
  "join_cells [] = []"
| "join_cells [c] = c"
| "join_cells (c # cs) = c @ '','' @ join_cells cs"

definition row_text :: "(pyobj \<Rightarrow> string) \<Rightarrow> pyobj list \<Rightarrow> string" where
  "row_text py_str row = join_cells (map (\<lambda>v. quoted (cell_text py_str v)) row) @ [CHR 0x0D, CHR 0x0A]"

text \<open>
  A text that the strict UTF-8 codec refuses: it holds a surrogate, that is the byte
  \<^verbatim>\<open>ED\<close> followed by a byte from \<^verbatim>\<open>A0\<close> to \<^verbatim>\<open>BF\<close>.
\<close>

fun has_surrogate :: "string \<Rightarrow> bool" where
  "has_surrogate (a # b # cs) =
     (if a = CHR 0xED \<and> (160::nat) \<le> of_char b \<and> of_char b \<le> (191::nat) then True
      else has_surrogate (b # cs))"
| "has_surrogate _ = False"

text \<open>
  The open file is the text written to it so far. The file is opened with
  \<^verbatim>\<open>encoding='utf-8'\<close>: a write encodes its text at once, and a text that cannot be
  encoded raises and adds nothing.
\<close>

definition file_write :: "string \<Rightarrow> string \<Rightarrow> (error + unit) \<times> string" where
  "file_write text f =
     (if has_surrogate text then (Inl UnicodeEncodeError, f) else (Inr (), f @ text))"

definition DictWriter_writerow ::
  "(pyobj \<Rightarrow> string) \<Rightarrow> (string \<times> pyobj) list \<Rightarrow> string \<Rightarrow> (error + unit) \<times> string" where
  "DictWriter_writerow py_str rowdict f =
     (case dict_to_list fieldnames rowdict of
        Inl e \<Rightarrow> (Inl e, f)
      | Inr row \<Rightarrow> file_write (row_text py_str row) f)"

definition DictWriter_writeheader :: "(pyobj \<Rightarrow> string) \<Rightarrow> string \<Rightarrow> (error + unit) \<times> string" where
  "DictWriter_writeheader py_str f =
     DictWriter_writerow py_str (zip fieldnames (map (\<lambda>n. Json (JStr n)) fieldnames)) f"

text \<open>The loop of \<^verbatim>\<open>write_reviews\<close>: a raise leaves it with the rows written so far.\<close>

fun write_rows :: "(pyobj \<Rightarrow> string) \<Rightarrow> Review list \<Rightarrow> string \<Rightarrow> (error + unit) \<times> string" where
  "write_rows py_str [] f = (Inr (), f)"
| "write_rows py_str (r # rest) f =
     (case del_item ''developer_response'' (review_dict r) of
        Inl e \<Rightarrow> (Inl e, f)
      | Inr d \<Rightarrow>
          (case DictWriter_writerow py_str d f of
             (Inl e, f1) \<Rightarrow> (Inl e, f1)
           | (Inr _, f1) \<Rightarrow> write_rows py_str rest f1))"

text \<open>
  Paths are POSIX path strings. \<open>dirname\<close> is \<^verbatim>\<open>os.path.dirname\<close>; \<open>path_join\<close> is
  the \<^verbatim>\<open>/\<close> of \<^verbatim>\<open>pathlib\<close>, where the empty path is the current directory and an
  absolute right operand replaces the left one.
\<close>

definition dirname :: "string \<Rightarrow> string" where
  "dirname p =
     (let head = rev (dropWhile (\<lambda>c. c \<noteq> CHR ''/'') (rev p))
      in if filter (\<lambda>c. c \<noteq> CHR ''/'') head = [] then head
         else rev (dropWhile (\<lambda>c. c = CHR ''/'') (rev head)))"

text \<open>\<^verbatim>\<open>os.path.basename\<close>: what follows the last slash.\<close>

definition basename :: "string \<Rightarrow> string" where
  "basename p = rev (takeWhile (\<lambda>c. c \<noteq> CHR ''/'') (rev p))"

definition path_join :: "string \<Rightarrow> string \<Rightarrow> string" where
  "path_join base name =
     (if take 1 name = ''/'' then name
      else if base = [] \<or> base = ''.'' then name
      else if last base = CHR ''/'' then base @ name
      else base @ ''/'' @ name)"

text \<open>
  \<^verbatim>\<open>BASE_PATH = Path(os.path.dirname(__file__))\<close> and \<^verbatim>\<open>LOG_FILE_PATH = BASE_PATH / '.log'\<close>,
  functions of the script's path.
\<close>

definition BASE_PATH :: "string \<Rightarrow> string" where
  "BASE_PATH script_file = dirname script_file"

definition LOG_FILE_PATH :: "string \<Rightarrow> string" where
  "LOG_FILE_PATH script_file = path_join (BASE_PATH script_file) ''.log''"

text \<open>
  The file system: the working directory of the process, the files by absolute path, and
  the paths that cannot be opened for writing.
\<close>

record file_system =
  cwd :: string
  files :: "string \<Rightarrow> string option"
  unwritable :: "string \<Rightarrow> bool"

definition abspath :: "file_system \<Rightarrow> string \<Rightarrow> string" where
  "abspath fs path = path_join (cwd fs) path"

text \<open>\<^verbatim>\<open>open(path, 'w')\<close> creates or truncates the file, or raises.\<close>

definition open_w :: "file_system \<Rightarrow> string \<Rightarrow> error + file_system" where
  "open_w fs path =
     (if unwritable fs (abspath fs path) then Inl OSError
      else Inr (fs\<lparr>files := (files fs)(abspath fs path \<mapsto> [])\<rparr>))"

text \<open>
  \<^verbatim>\<open>open(path, 'a+')\<close>, as the file handler of the logger does it, creates the file when
  it is missing and keeps what it holds, or raises; \<open>append_text\<close> is what the handler's
  writes add to it.
\<close>

definition open_a :: "file_system \<Rightarrow> string \<Rightarrow> error + file_system" where
  "open_a fs path =
     (if unwritable fs (abspath fs path) then Inl OSError
      else Inr (fs\<lparr>files := (files fs)(abspath fs path \<mapsto>
                   (case files fs (abspath fs path) of None \<Rightarrow> [] | Some t \<Rightarrow> t))\<rparr>))"

definition append_text :: "file_system \<Rightarrow> string \<Rightarrow> string \<Rightarrow> file_system" where
  "append_text fs path text =
     fs\<lparr>files := (files fs)(abspath fs path \<mapsto>
          (case files fs (abspath fs path) of None \<Rightarrow> [] | Some t \<Rightarrow> t) @ text)\<rparr>"

text \<open>
  \<^verbatim>\<open>write_reviews\<close>: the \<^verbatim>\<open>with\<close> block closes the file on every way out, so what was
  written before a raise stays in it.
\<close>

definition write_reviews ::
  "(pyobj \<Rightarrow> string) \<Rightarrow> Review list \<Rightarrow> string \<Rightarrow> file_system \<Rightarrow> (error + unit) \<times> file_system" where
  "write_reviews py_str reviews output_file_path fs =
     (case open_w fs output_file_path of
        Inl e \<Rightarrow> (Inl e, fs)
      | Inr fs1 \<Rightarrow>
          (case (case DictWriter_writeheader py_str [] of
                   (Inl e, f1) \<Rightarrow> (Inl e, f1)
                 | (Inr _, f1) \<Rightarrow> write_rows py_str reviews f1) of
             (r, f2) \<Rightarrow> (r, fs1\<lparr>files := (files fs1)(abspath fs output_file_path \<mapsto> f2)\<rparr>)))"

section \<open>The program\<close>

text \<open>
  The main block after \<^verbatim>\<open>argparse\<close> has read \<open>app_name\<close> and \<open>app_id\<close>;
  \<open>script_file\<close> is \<^verbatim>\<open>__file__\<close>. \<open>main\<close> is the block without its log output,
  \<open>program\<close> below is the whole run with the log file.
\<close>

definition main ::
  "world \<Rightarrow> (int \<Rightarrow> nat) \<Rightarrow> (pyobj \<Rightarrow> string) \<Rightarrow> string \<Rightarrow> string \<Rightarrow> int \<Rightarrow> file_system \<Rightarrow>
   (error + unit) \<times> file_system" where
  "main w finish py_str script_file name ident fs =
     (case parse_parallel w finish 20 (AppStoreParser_init name ident) of
        (Inl e, _) \<Rightarrow> (Inl e, fs)
      | (Inr reviews, _) \<Rightarrow>
          write_reviews py_str reviews (path_join (BASE_PATH script_file) (name @ ''.csv'')) fs)"

text \<open>
  A run of the script. At import \<^verbatim>\<open>setup_logger\<close> opens the log file
  \<^verbatim>\<open>LOG_FILE_PATH\<close> in append mode, which raises when the file cannot be opened; then
  the main block runs, and every logging call of the run appends a line to the log
  file, whether the run ends well or not. The lines carry the time of day, so the text
  they add up to is the parameter \<open>log_text\<close>. The output file and the log file have
  different paths (one ends in \<^verbatim>\<open>csv\<close>, the other in \<^verbatim>\<open>log\<close>), so the order of their
  writes does not matter and the log text is added at the end.
\<close>

definition program ::
  "world \<Rightarrow> (int \<Rightarrow> nat) \<Rightarrow> (pyobj \<Rightarrow> string) \<Rightarrow> string \<Rightarrow> string \<Rightarrow> string \<Rightarrow> int \<Rightarrow>
   file_system \<Rightarrow> (error + unit) \<times> file_system" where
  "program w finish py_str log_text script_file name ident fs =
     (case open_a fs (LOG_FILE_PATH script_file) of
        Inl e \<Rightarrow> (Inl e, fs)
      | Inr fs0 \<Rightarrow>
          (case main w finish py_str script_file name ident fs0 of
             (r, fs1) \<Rightarrow> (r, append_text fs1 (LOG_FILE_PATH script_file) log_text)))"

section \<open>Observations and reference definitions\<close>

text \<open>The offsets of the review pages requested in a list of requests, in order.\<close>

fun reviews_offsets :: "request list \<Rightarrow> int list" where
  "reviews_offsets [] = []"
| "reviews_offsets (GetReviews _ _ _ off # rs) = off # reviews_offsets rs"
| "reviews_offsets (_ # rs) = reviews_offsets rs"

text \<open>The requests sent between two states of the parser.\<close>

definition new_requests :: "AppStoreParser \<Rightarrow> AppStoreParser \<Rightarrow> request list" where
  "new_requests p p' = drop (length (session p)) (session p')"

text \<open>
  The sequential baseline, following the specification's words: the pages are fetched one
  after the other in the given order, on one parser, and their reviews are concatenated;
  a failing fetch ends it.
\<close>

fun sequential_baseline :: "world \<Rightarrow> int list \<Rightarrow> AppStoreParser \<Rightarrow> error + Review list" where
  "sequential_baseline w [] p = Inr []"
| "sequential_baseline w (page # rest) p =
     (case get_reviews_page w p page of
        (Inl e, p1) \<Rightarrow> Inl e
      | (Inr reviews, p1) \<Rightarrow>
          (case sequential_baseline w rest p1 of
             Inl e \<Rightarrow> Inl e
           | Inr later \<Rightarrow> Inr (reviews @ later)))"

text \<open>
  A field of a remote record, following the specification's words: the value under the
  key in the record's attributes, if the record has it.
\<close>

definition record_field :: "json \<Rightarrow> string \<Rightarrow> json option" where
  "record_field rec k =
     (case rec of
        JObj kvs \<Rightarrow>
          (case map_of kvs ''attributes'' of
             Some (JObj attrs) \<Rightarrow> map_of attrs k
           | _ \<Rightarrow> None)
      | _ \<Rightarrow> None)"

definition required_fields :: "string list" where
  "required_fields = [''userName'', ''review'', ''isEdited'', ''date'', ''rating'', ''title'']"

text \<open>The developerResponse object a remote record includes (JSON null is no object).\<close>

definition included_response :: "json \<Rightarrow> json option" where
  "included_response rec =
     (case record_field rec ''developerResponse'' of
        Some JNull \<Rightarrow> None
      | other \<Rightarrow> other)"

text \<open>
  The rows the sink is asked to write, following the specification's words: the header,
  then per review its six scalar fields.
\<close>

definition scalar_fields :: "Review \<Rightarrow> pyobj list" where
  "scalar_fields r =
     [Json (user_name r), Json (title r), Json (review r), Json (is_edited r),
      Json (last_update r), Json (rating r)]"

definition header_row :: "pyobj list" where
  "header_row = map (\<lambda>n. Json (JStr n)) fieldnames"

section \<open>What a unit of work depends on\<close>

text \<open>The token the landing page of an app yields, and the outcome of one page request.\<close>

definition landing_token :: "world \<Rightarrow> string \<Rightarrow> int \<Rightarrow> error + json" where
  "landing_token w name ident =
     and_then (http w (GetLanding name ident)) (\<lambda>resp.
     and_then (meta_config resp) (\<lambda>app_data.
     and_then (getitem app_data ''MEDIA_API'') (\<lambda>media. getitem media ''token'')))"

definition fetch_outcome ::
  "world \<Rightarrow> string \<Rightarrow> int \<Rightarrow> json \<Rightarrow> int \<Rightarrow> error + (json \<times> Review list)" where
  "fetch_outcome w name ident tok offset =
     and_then (http w (GetReviews name ident tok offset)) (\<lambda>resp.
     and_then (raise_for_status resp) (\<lambda>_.
     case json_body resp of None \<Rightarrow> Inl JSONDecodeError | Some j \<Rightarrow> decode_page j))"

definition page_outcome :: "world \<Rightarrow> string \<Rightarrow> int \<Rightarrow> json \<Rightarrow> int \<Rightarrow> error + Review list" where
  "page_outcome w name ident tok page =
     and_then (fetch_outcome w name ident tok (page_offset page)) (\<lambda>r. Inr (snd r))"

text \<open>A parser whose token is held, or is the one a new authentication yields again.\<close>

definition settled :: "world \<Rightarrow> AppStoreParser \<Rightarrow> bool" where
  "settled w p =
     (if truthy (auth_token p) then True
      else landing_token w (app_name p) (app_id p) = Inr (auth_token p))"

definition unit_requests :: "AppStoreParser \<Rightarrow> int \<Rightarrow> request list" where
  "unit_requests p page =
     (if truthy (auth_token p) then [] else [GetLanding (app_name p) (app_id p)]) @
     [GetReviews (app_name p) (app_id p) (auth_token p) (page_offset page)]"

definition successes :: "(int \<Rightarrow> error + Review list) \<Rightarrow> int list \<Rightarrow> (int \<times> Review list) list" where
  "successes out pages =
     concat (map (\<lambda>page. case out page of Inl e \<Rightarrow> [] | Inr reviews \<Rightarrow> [(page, reviews)]) pages)"

section \<open>Concrete inputs\<close>

definition demo_record1 :: json where
  "demo_record1 =
     JObj [(''attributes'', JObj
       [(''userName'', JStr ''ann''), (''review'', JStr ''good, really''),
        (''isEdited'', JBool False), (''date'', JStr ''2020-01-01''), (''rating'', JInt 5),
        (''title'', JStr ''nice''),
        (''developerResponse'', JObj
          [(''id'', JInt 7), (''body'', JStr ''thanks''), (''modified'', JStr ''2020-01-02'')])])]"

definition demo_record2 :: json where
  "demo_record2 =
     JObj [(''attributes'', JObj
       [(''userName'', JStr ''bob''), (''review'', JStr ''bad''),
        (''isEdited'', JBool True), (''date'', JStr ''2020-02-01''), (''rating'', JInt 1),
        (''title'', JStr ''meh'')])]"

text \<open>A record without a title.\<close>

definition demo_record3 :: json where
  "demo_record3 =
     JObj [(''attributes'', JObj
       [(''userName'', JStr ''cy''), (''review'', JStr ''ok''),
        (''isEdited'', JBool False), (''date'', JStr ''2020-03-01''), (''rating'', JInt 3)])]"

definition demo_page :: "json list \<Rightarrow> error + response" where
  "demo_page recs =
     Inr \<lparr>status_code = 200, json_body = Some (JObj [(''data'', JList recs)]),
          meta_config = Inl AttributeError\<rparr>"

definition demo_review1 :: Review where
  "demo_review1 =
     \<lparr>user_name = JStr ''ann'', title = JStr ''nice'', review = JStr ''good, really'',
      is_edited = JBool False, last_update = JStr ''2020-01-01'', rating = JInt 5,
      developer_response =
        Some \<lparr>developer_id = JInt 7, body = JStr ''thanks'', modified = JStr ''2020-01-02''\<rparr>\<rparr>"

definition demo_review2 :: Review where
  "demo_review2 =
     \<lparr>user_name = JStr ''bob'', title = JStr ''meh'', review = JStr ''bad'',
      is_edited = JBool True, last_update = JStr ''2020-02-01'', rating = JInt 1,
      developer_response = None\<rparr>"

text \<open>
  A service for an app with 25 ratings: it hands out the token \<open>tok\<close>, page 1 holds the
  first record, and the answer for page 2 is the parameter.
\<close>

fun demo_http :: "error + response \<Rightarrow> request \<Rightarrow> error + response" where
  "demo_http second (GetLanding n i) =
     Inr \<lparr>status_code = 200, json_body = None,
          meta_config = Inr (JObj [(''MEDIA_API'', JObj [(''token'', JStr ''tok'')])])\<rparr>"
| "demo_http second (GetAppInfo n i t) =
     Inr \<lparr>status_code = 200,
          json_body = Some (JObj [(''data'', JList [JObj [(''attributes'',
            JObj [(''userRating'', JObj [(''ratingCount'', JInt 25)])])]])]),
          meta_config = Inl AttributeError\<rparr>"
| "demo_http second (GetReviews n i t off) =
     (if off = 0 then demo_page [demo_record1]
      else if off = 10 then second
      else Inl ConnectionError)"

definition demo_world :: world where
  "demo_world = \<lparr>http = demo_http (demo_page [demo_record2])\<rparr>"

text \<open>The same service answering page 2 with status 500.\<close>

definition failing_world :: world where
  "failing_world =
     \<lparr>http = demo_http (Inr \<lparr>status_code = 500, json_body = None, meta_config = Inl AttributeError\<rparr>)\<rparr>"

text \<open>The same service with a defective record on page 2.\<close>

definition defective_world :: world where
  "defective_world = \<lparr>http = demo_http (demo_page [demo_record2, demo_record3])\<rparr>"

text \<open>A service whose app info is refused with status 403.\<close>

fun refusing_http :: "request \<Rightarrow> error + response" where
  "refusing_http (GetAppInfo n i t) =
     Inr \<lparr>status_code = 403, json_body = None, meta_config = Inl AttributeError\<rparr>"
| "refusing_http req = demo_http (demo_page [demo_record2]) req"

definition refusing_world :: world where
  "refusing_world = \<lparr>http = refusing_http\<rparr>"

definition demo_parser :: AppStoreParser where
  "demo_parser = AppStoreParser_init ''myapp'' 1"

text \<open>The parser once it holds the token and has asked for the app info.\<close>

definition demo_parser1 :: AppStoreParser where
  "demo_parser1 =
     \<lparr>app_name = ''myapp'', app_id = 1,
      session = [GetLanding ''myapp'' 1, GetAppInfo ''myapp'' 1 (JStr ''tok'')],
      auth_token = JStr ''tok''\<rparr>"

text \<open>A schedule on which page 2 finishes before page 1.\<close>

definition demo_finish :: "int \<Rightarrow> nat" where
  "demo_finish page = (if page = 1 then 2 else 1)"

text \<open>A stand-in for \<^verbatim>\<open>str\<close> on the cells of the concrete inputs: booleans and one digit.\<close>

fun demo_str :: "pyobj \<Rightarrow> string" where
  "demo_str (Json (JBool b)) = (if b then ''True'' else ''False'')"
| "demo_str (Json (JInt n)) =
     (if n = 1 then ''1'' else if n = 3 then ''3'' else if n = 5 then ''5'' else ''?'')"
| "demo_str _ = ''?''"

definition demo_fs :: file_system where
  "demo_fs =
     \<lparr>cwd = ''/home/user'',
      files = (\<lambda>path. if path = ''/opt/tool/myapp.csv'' then Some ''old'' else None),
      unwritable = (\<lambda>path. False)\<rparr>"

text \<open>The reviews of the two pages of the demo service.\<close>

definition demo_revs :: "int \<Rightarrow> Review list" where
  "demo_revs page = (if page = 1 then [demo_review1] else [demo_review2])"

text \<open>A service whose landing page carries no configuration element.\<close>

fun tokenless_http :: "request \<Rightarrow> error + response" where
  "tokenless_http (GetLanding n i) =
     Inr \<lparr>status_code = 200, json_body = None, meta_config = Inl AttributeError\<rparr>"
| "tokenless_http req = demo_http (demo_page [demo_record2]) req"

definition tokenless_world :: world where
  "tokenless_world = \<lparr>http = tokenless_http\<rparr>"

text \<open>The text of the file that the concrete run writes.\<close>


definition demo_log :: string where
  "demo_log = ''[11/04/2026 01:00:00] [AppStore Parser] INFO: Scanned reviews: 2'' @ [CHR 0x0A]"

definition demo_csv :: string where
  "demo_csv =
     ''user_name,title,review,is_edited,last_update,rating'' @ [CHR 0x0D, CHR 0x0A] @
     ''ann,nice,'' @ [CHR 0x22] @ ''good, really'' @ [CHR 0x22] @ '',False,2020-01-01,5'' @
       [CHR 0x0D, CHR 0x0A] @
     ''bob,meh,bad,True,2020-02-01,1'' @ [CHR 0x0D, CHR 0x0A]"

section \<open>Properties of the session and of a unit of work\<close>

lemma u_auth_eq:
  "u_auth w p =
     (case landing_token w (app_name p) (app_id p) of
        Inl e \<Rightarrow> (Inl e, p\<lparr>session := session p @ [GetLanding (app_name p) (app_id p)]\<rparr>)
      | Inr tok \<Rightarrow> (Inr (), p\<lparr>session := session p @ [GetLanding (app_name p) (app_id p)],
                              auth_token := tok\<rparr>))"
  by (cases "http w (GetLanding (app_name p) (app_id p))")
     (simp_all add: u_auth_def session_get_def landing_token_def split: sum.splits)

lemma u_get_reviews_body_eq:
  "u_get_reviews_body off w p =
     (fetch_outcome w (app_name p) (app_id p) (auth_token p) off,
      p\<lparr>session := session p @ [GetReviews (app_name p) (app_id p) (auth_token p) off]\<rparr>)"
  by (cases "http w (GetReviews (app_name p) (app_id p) (auth_token p) off)")
     (simp_all add: u_get_reviews_body_def session_get_def fetch_outcome_def
        split: sum.splits option.splits)

lemma get_reviews_page_settled:
  assumes "settled w p" and "0 < page"
  shows "get_reviews_page w p page =
           (page_outcome w (app_name p) (app_id p) (auth_token p) page,
            p\<lparr>session := session p @ unit_requests p page\<rparr>)"
proof (cases "truthy (auth_token p)")
  case True
  then show ?thesis
    using assms(2)
    by (cases "fetch_outcome w (app_name p) (app_id p) (auth_token p) (page_offset page)")
       (auto simp add: get_reviews_page_def u_get_reviews_def auth_required_def
        u_get_reviews_body_eq page_outcome_def unit_requests_def)
next
  case False
  with assms(1) have tok: "landing_token w (app_name p) (app_id p) = Inr (auth_token p)"
    by (simp add: settled_def)
  show ?thesis
    using assms(2) False
    by (cases "fetch_outcome w (app_name p) (app_id p) (auth_token p) (page_offset page)")
       (auto simp add: get_reviews_page_def u_get_reviews_def auth_required_def u_auth_eq tok
        u_get_reviews_body_eq page_outcome_def unit_requests_def)
qed

lemma get_app_info_body_eq:
  "\<exists>r. get_app_info_body w p =
     (r, p\<lparr>session := session p @ [GetAppInfo (app_name p) (app_id p) (auth_token p)]\<rparr>)"
  by (simp add: get_app_info_body_def session_get_def split: sum.splits option.splits)

lemma get_app_info_cases:
  assumes "get_app_info w p = (r, p1)"
  shows "app_name p1 = app_name p \<and> app_id p1 = app_id p \<and>
         (\<exists>rs. session p1 = session p @ rs \<and> reviews_offsets rs = []) \<and>
         ((\<exists>x. r = Inr x) \<longrightarrow> settled w p1)"
proof -
  have b: "\<And>q. \<exists>r. get_app_info_body w q =
     (r, q\<lparr>session := session q @ [GetAppInfo (app_name q) (app_id q) (auth_token q)]\<rparr>)"
    by (rule get_app_info_body_eq)
  show ?thesis
  proof (cases "truthy (auth_token p)")
    case True
    from b[of p] obtain r' where "get_app_info_body w p =
       (r', p\<lparr>session := session p @ [GetAppInfo (app_name p) (app_id p) (auth_token p)]\<rparr>)" by blast
    with True assms show ?thesis
      by (auto simp add: get_app_info_def auth_required_def settled_def)
  next
    case False
    show ?thesis
    proof (cases "landing_token w (app_name p) (app_id p)")
      case (Inl e)
      with False assms show ?thesis
        by (auto simp add: get_app_info_def auth_required_def u_auth_eq)
    next
      case (Inr tok)
      let ?q = "p\<lparr>session := session p @ [GetLanding (app_name p) (app_id p)], auth_token := tok\<rparr>"
      from b[of ?q] obtain r' where "get_app_info_body w ?q =
         (r', ?q\<lparr>session := session ?q @ [GetAppInfo (app_name ?q) (app_id ?q) (auth_token ?q)]\<rparr>)" by blast
      with False Inr assms show ?thesis
        by (auto simp add: get_app_info_def auth_required_def u_auth_eq settled_def)
    qed
  qed
qed

lemma get_app_rating_count_cases:
  assumes "get_app_rating_count w p = (r, p1)"
  shows "app_name p1 = app_name p \<and> app_id p1 = app_id p \<and>
         (\<exists>rs. session p1 = session p @ rs \<and> reviews_offsets rs = []) \<and>
         ((\<exists>x. r = Inr x) \<longrightarrow> settled w p1)"
proof (cases "get_app_info w p")
  case (Pair r0 p0)
  with assms have "p1 = p0" and "(\<exists>x. r = Inr x) \<longrightarrow> (\<exists>x. r0 = Inr x)"
    by (auto simp add: get_app_rating_count_def split: sum.splits)
  with get_app_info_cases[OF Pair] show ?thesis by blast
qed


lemma settled_session [simp]: "settled w (p\<lparr>session := s\<rparr>) = settled w p"
  by (simp add: settled_def)

lemma unit_requests_session [simp]: "unit_requests (p\<lparr>session := s\<rparr>) page = unit_requests p page"
  by (simp add: unit_requests_def)

lemma successes_Nil [simp]: "successes out [] = []"
  by (simp add: successes_def)

lemma successes_Cons:
  "successes out (page # pages) =
     (case out page of Inl e \<Rightarrow> [] | Inr reviews \<Rightarrow> [(page, reviews)]) @ successes out pages"
  by (simp add: successes_def)

lemma collect_settled:
  assumes "settled w p" and "\<forall>page\<in>set pages. 0 < page"
  shows "collect w pages acc p =
           (acc @ successes (page_outcome w (app_name p) (app_id p) (auth_token p)) pages,
            p\<lparr>session := session p @ concat (map (unit_requests p) pages)\<rparr>)"
  using assms
proof (induction pages arbitrary: acc p)
  case Nil
  then show ?case by simp
next
  case (Cons page pages)
  let ?q = "p\<lparr>session := session p @ unit_requests p page\<rparr>"
  have step: "get_reviews_page w p page =
      (page_outcome w (app_name p) (app_id p) (auth_token p) page, ?q)"
    using Cons.prems by (simp add: get_reviews_page_settled)
  have q: "settled w ?q" "\<forall>page\<in>set pages. 0 < page"
    using Cons.prems by simp_all
  show ?case
    by (cases "page_outcome w (app_name p) (app_id p) (auth_token p) page")
       (simp_all add: step Cons.IH[OF q] successes_Cons)
qed

lemma map_fst_successes: "map fst (successes out pages) = filter (\<lambda>page. \<not> isl (out page)) pages"
  by (induction pages) (auto simp add: successes_Cons split: sum.splits)

lemma set_successes: "set (successes out pages) = {(page, r). page \<in> set pages \<and> out page = Inr r}"
  by (induction pages) (auto simp add: successes_Cons split: sum.splits)

lemma mset_successes: "mset pages = mset pages' \<Longrightarrow> mset (successes out pages) = mset (successes out pages')"
proof -
  have "mset (successes out xs) =
          (\<Sum>page\<in>#mset xs. mset (case out page of Inl e \<Rightarrow> [] | Inr reviews \<Rightarrow> [(page, reviews)]))" for xs
    by (induction xs) (simp_all add: successes_Cons)
  then show "mset pages = mset pages' \<Longrightarrow> mset (successes out pages) = mset (successes out pages')"
    by simp
qed

lemma sort_successes:
  assumes "mset order = mset pages" and "sorted pages"
  shows "sort_key fst (successes out order) = successes out pages"
proof (rule sort_key_inj_key_eq)
  show "mset (successes out order) = mset (successes out pages)"
    using assms(1) by (rule mset_successes)
  show "inj_on fst (set (successes out order))"
    by (auto simp add: inj_on_def set_successes)
  show "sorted (map fst (successes out pages))"
    using assms(2) by (simp add: map_fst_successes sorted_wrt_filter)
qed

lemma reassemble_successes:
  assumes "mset order = mset pages" and "sorted pages"
  shows "reassemble (successes out order) = concat (map snd (successes out pages))"
  by (simp add: reassemble_def sort_successes[OF assms])

lemma concat_successes_all:
  "\<forall>page\<in>set pages. out page = Inr (revs page) \<Longrightarrow>
     concat (map snd (successes out pages)) = concat (map revs pages)"
  by (induction pages) (simp_all add: successes_Cons)

lemma as_completed_mset [simp]: "mset (as_completed finish pages) = mset pages"
  by (simp add: as_completed_def)

lemma as_completed_set [simp]: "set (as_completed finish pages) = set pages"
  by (simp add: as_completed_def)

lemma pages_range_pos: "\<forall>page\<in>set (pages_range lp). 0 < page"
  by (simp add: pages_range_def)

lemma sorted_pages_range: "sorted (pages_range lp)"
  by (simp add: pages_range_def)

lemma parse_parallel_result:
  assumes "get_app_rating_count w parser = (Inr rating_count, p1)"
    and "last_page rating_count = Inr lp"
    and "0 < max_workers"
  shows "parse_parallel w finish max_workers parser =
           (Inr (concat (map snd (successes (page_outcome w (app_name p1) (app_id p1) (auth_token p1))
                                     (pages_range lp)))),
            p1\<lparr>session := session p1 @
                 concat (map (unit_requests p1) (as_completed finish (pages_range lp)))\<rparr>)"
proof -
  have s: "settled w p1"
    using get_app_rating_count_cases[OF assms(1)] by blast
  have pos: "\<forall>page\<in>set (as_completed finish (pages_range lp)). 0 < page"
    using pages_range_pos by simp
  show ?thesis
    using assms(3)
    by (simp add: parse_parallel_def assms(1,2) collect_settled[OF s pos]
        reassemble_successes[OF as_completed_mset sorted_pages_range])
qed

lemma sequential_baseline_settled:
  assumes "settled w p" and "\<forall>page\<in>set pages. 0 < page"
    and "\<forall>page\<in>set pages. page_outcome w (app_name p) (app_id p) (auth_token p) page = Inr (revs page)"
  shows "sequential_baseline w pages p = Inr (concat (map revs pages))"
  using assms
proof (induction pages arbitrary: p)
  case Nil
  then show ?case by simp
next
  case (Cons page pages)
  let ?q = "p\<lparr>session := session p @ unit_requests p page\<rparr>"
  have step: "get_reviews_page w p page = (Inr (revs page), ?q)"
    using Cons.prems by (simp add: get_reviews_page_settled)
  have "sequential_baseline w pages ?q = Inr (concat (map revs pages))"
    using Cons.prems by (intro Cons.IH) simp_all
  then show ?case by (simp add: step)
qed

lemma reviews_offsets_append [simp]:
  "reviews_offsets (xs @ ys) = reviews_offsets xs @ reviews_offsets ys"
  by (induction xs rule: reviews_offsets.induct) simp_all

lemma reviews_offsets_unit [simp]: "reviews_offsets (unit_requests p page) = [page_offset page]"
  by (simp add: unit_requests_def)

lemma reviews_offsets_units:
  "reviews_offsets (concat (map (unit_requests p) pages)) = map page_offset pages"
  by (induction pages) simp_all

lemma outcome_of_page:
  assumes "settled w p" and "0 < page"
  shows "fst (get_reviews_page w p page) = page_outcome w (app_name p) (app_id p) (auth_token p) page"
  by (simp add: get_reviews_page_settled[OF assms])

section \<open>The demo service, evaluated\<close>

lemma demo_count: "get_app_rating_count demo_world demo_parser = (Inr (JInt 25), demo_parser1)"
  by code_simp

lemma demo_last_page: "last_page (JInt 25) = Inr 2"
  by code_simp

lemma demo_pages: "pages_range 2 = [1, 2]"
  by code_simp

lemma demo_fetches:
  "\<forall>page\<in>set (pages_range 2). fst (get_reviews_page demo_world demo_parser1 page) = Inr (demo_revs page)"
  unfolding demo_pages by code_simp

section \<open>The orchestrator restores page order\<close>

text \<open>
  Claim C1. When the count estimation succeeds and every page fetch of the range succeeds,
  the sequence returned by the orchestrator equals the one produced by fetching the pages
  1..N one after the other and concatenating: it is the concatenation of the pages'
  reviews in page order, its length is the sum of the per-page counts, and this holds for
  every schedule \<open>finish\<close> and for every permutation \<open>order\<close> of the pages in which
  the results are collected.
\<close>

theorem parse_parallel_equals_sequential:
  assumes "get_app_rating_count w parser = (Inr rating_count, p1)"
    and "last_page rating_count = Inr lp"
    and "0 < max_workers"
    and "\<forall>page\<in>set (pages_range lp). fst (get_reviews_page w p1 page) = Inr (revs page)"
  shows "fst (parse_parallel w finish max_workers parser) = sequential_baseline w (pages_range lp) p1
       \<and> fst (parse_parallel w finish max_workers parser) = Inr (concat (map revs (pages_range lp)))
       \<and> length (concat (map revs (pages_range lp))) = (\<Sum>page\<leftarrow>pages_range lp. length (revs page))
       \<and> (\<forall>order. mset order = mset (pages_range lp) \<longrightarrow>
            reassemble (fst (collect w order [] p1)) = concat (map revs (pages_range lp)))"
proof -
  let ?out = "page_outcome w (app_name p1) (app_id p1) (auth_token p1)"
  have s: "settled w p1"
    using get_app_rating_count_cases[OF assms(1)] by blast
  have out: "\<forall>page\<in>set (pages_range lp). ?out page = Inr (revs page)"
    using assms(4) outcome_of_page[OF s] pages_range_pos by metis
  have par: "fst (parse_parallel w finish max_workers parser) = Inr (concat (map revs (pages_range lp)))"
    by (simp add: parse_parallel_result[OF assms(1-3)] concat_successes_all[OF out])
  have seq: "sequential_baseline w (pages_range lp) p1 = Inr (concat (map revs (pages_range lp)))"
    using s pages_range_pos out by (rule sequential_baseline_settled)
  have len: "length (concat (map revs (pages_range lp))) = (\<Sum>page\<leftarrow>pages_range lp. length (revs page))"
    by (simp add: length_concat comp_def)
  have any: "reassemble (fst (collect w order [] p1)) = concat (map revs (pages_range lp))"
    if "mset order = mset (pages_range lp)" for order
  proof -
    have "set order = set (pages_range lp)"
      using that by (rule mset_eq_setD)
    then have pos: "\<forall>page\<in>set order. 0 < page"
      using pages_range_pos by simp
    show ?thesis
      by (simp add: collect_settled[OF s pos] reassemble_successes[OF that sorted_pages_range]
          concat_successes_all[OF out])
  qed
  from par seq len any show ?thesis by simp
qed

theorem parse_parallel_equals_sequential_witness:
  "get_app_rating_count demo_world demo_parser = (Inr (JInt 25), demo_parser1)
   \<and> last_page (JInt 25) = Inr 2
   \<and> (0::int) < 20
   \<and> pages_range 2 = [1, 2]
   \<and> fst (get_reviews_page demo_world demo_parser1 1) = Inr (demo_revs 1)
   \<and> fst (get_reviews_page demo_world demo_parser1 2) = Inr (demo_revs 2)
   \<and> fst (parse_parallel demo_world demo_finish 20 demo_parser) = Inr [demo_review1, demo_review2]
   \<and> sequential_baseline demo_world (pages_range 2) demo_parser1 = Inr [demo_review1, demo_review2]
   \<and> reassemble (fst (collect demo_world [2, 1] [] demo_parser1)) = [demo_review1, demo_review2]"
proof -
  have w: "(0::int) < 20" by simp
  have m: "mset [2, 1] = mset (pages_range (2::int))"
    unfolding demo_pages by simp
  have c: "concat (map demo_revs (pages_range 2)) = [demo_review1, demo_review2]"
    unfolding demo_pages by (simp add: demo_revs_def)
  note T = parse_parallel_equals_sequential[OF demo_count demo_last_page w demo_fetches,
      of demo_finish, unfolded c]
  from T have par: "fst (parse_parallel demo_world demo_finish 20 demo_parser) =
      Inr [demo_review1, demo_review2]"
    by blast
  from T have seq: "sequential_baseline demo_world (pages_range 2) demo_parser1 =
      Inr [demo_review1, demo_review2]"
    by metis
  from T m have any: "reassemble (fst (collect demo_world [2, 1] [] demo_parser1)) =
      [demo_review1, demo_review2]"
    by blast
  have f: "fst (get_reviews_page demo_world demo_parser1 1) = Inr (demo_revs 1)"
    "fst (get_reviews_page demo_world demo_parser1 2) = Inr (demo_revs 2)"
    using demo_fetches unfolding demo_pages by simp_all
  from demo_count demo_last_page w demo_pages f par seq any show ?thesis
    by (intro conjI)
qed

section \<open>A failing page is dropped\<close>

lemma new_requests_append [simp]: "new_requests p (q\<lparr>session := session p @ rs\<rparr>) = rs"
  by (simp add: new_requests_def)

lemma new_requests_self [simp]: "new_requests p p = []"
  by (simp add: new_requests_def)

lemma parse_parallel_offsets:
  assumes "get_app_rating_count w parser = (Inr rating_count, p1)"
    and "last_page rating_count = Inr lp"
    and "0 < max_workers"
  shows "mset (reviews_offsets (new_requests p1 (snd (parse_parallel w finish max_workers parser)))) =
           mset (map page_offset (pages_range lp))"
  by (simp add: parse_parallel_result[OF assms] reviews_offsets_units)

lemma successes_removeAll:
  assumes "out k = Inl e"
    and "\<forall>page\<in>set pages. page \<noteq> k \<longrightarrow> out page = Inr (revs page)"
  shows "concat (map snd (successes out pages)) = concat (map revs (removeAll k pages))"
  using assms by (induction pages) (auto simp add: successes_Cons)

lemma concat_successes:
  "concat (map snd (successes out pages)) =
     concat (map (\<lambda>page. case out page of Inl e \<Rightarrow> [] | Inr reviews \<Rightarrow> reviews) pages)"
  by (induction pages) (auto simp add: successes_Cons split: sum.splits)

text \<open>
  Claim C2. When the fetch of exactly one page \<open>k\<close> of the range fails and every other
  page succeeds, the orchestrator returns the sequential baseline of the pages other than
  \<open>k\<close>: page \<open>k\<close> contributes nothing, every other page contributes its reviews in
  page order, and each page of the range, \<open>k\<close> included, was requested exactly once
  (no retry, no abort of the remaining units).
\<close>

theorem parse_parallel_drops_failed_page:
  assumes "get_app_rating_count w parser = (Inr rating_count, p1)"
    and "last_page rating_count = Inr lp"
    and "0 < max_workers"
    and "k \<in> set (pages_range lp)"
    and "fst (get_reviews_page w p1 k) = Inl e"
    and "\<forall>page\<in>set (pages_range lp). page \<noteq> k \<longrightarrow> fst (get_reviews_page w p1 page) = Inr (revs page)"
  shows "fst (parse_parallel w finish max_workers parser) =
           Inr (concat (map revs (removeAll k (pages_range lp))))
       \<and> sequential_baseline w (removeAll k (pages_range lp)) p1 =
           Inr (concat (map revs (removeAll k (pages_range lp))))
       \<and> mset (reviews_offsets (new_requests p1 (snd (parse_parallel w finish max_workers parser)))) =
           mset (map page_offset (pages_range lp))"
proof -
  let ?out = "page_outcome w (app_name p1) (app_id p1) (auth_token p1)"
  have s: "settled w p1"
    using get_app_rating_count_cases[OF assms(1)] by blast
  have k: "?out k = Inl e"
    using assms(4,5) outcome_of_page[OF s] pages_range_pos by metis
  have others: "\<forall>page\<in>set (pages_range lp). page \<noteq> k \<longrightarrow> ?out page = Inr (revs page)"
    using assms(6) outcome_of_page[OF s] pages_range_pos by metis
  have par: "fst (parse_parallel w finish max_workers parser) =
      Inr (concat (map revs (removeAll k (pages_range lp))))"
    by (simp add: parse_parallel_result[OF assms(1-3)] successes_removeAll[OF k others])
  have "\<forall>page\<in>set (removeAll k (pages_range lp)). 0 < page"
    and "\<forall>page\<in>set (removeAll k (pages_range lp)). ?out page = Inr (revs page)"
    using pages_range_pos others by auto
  with s have seq: "sequential_baseline w (removeAll k (pages_range lp)) p1 =
      Inr (concat (map revs (removeAll k (pages_range lp))))"
    by (rule sequential_baseline_settled)
  from par seq parse_parallel_offsets[OF assms(1-3)] show ?thesis by simp
qed

lemma failing_count: "get_app_rating_count failing_world demo_parser = (Inr (JInt 25), demo_parser1)"
  by code_simp

lemma failing_page2: "fst (get_reviews_page failing_world demo_parser1 2) = Inl (HTTPError 500)"
  by code_simp

lemma failing_page1: "fst (get_reviews_page failing_world demo_parser1 1) = Inr (demo_revs 1)"
  by code_simp

theorem parse_parallel_drops_failed_page_witness:
  "get_app_rating_count failing_world demo_parser = (Inr (JInt 25), demo_parser1)
   \<and> last_page (JInt 25) = Inr 2
   \<and> (0::int) < 20
   \<and> pages_range 2 = [1, 2]
   \<and> fst (get_reviews_page failing_world demo_parser1 2) = Inl (HTTPError 500)
   \<and> fst (get_reviews_page failing_world demo_parser1 1) = Inr (demo_revs 1)
   \<and> fst (parse_parallel failing_world demo_finish 20 demo_parser) = Inr [demo_review1]
   \<and> sequential_baseline failing_world (removeAll 2 (pages_range 2)) demo_parser1 = Inr [demo_review1]
   \<and> mset (reviews_offsets (new_requests demo_parser1
              (snd (parse_parallel failing_world demo_finish 20 demo_parser)))) = {#0, 10#}"
proof -
  have w: "(0::int) < 20" by simp
  have k: "2 \<in> set (pages_range 2)"
    unfolding demo_pages by simp
  have others: "\<forall>page\<in>set (pages_range 2). page \<noteq> 2 \<longrightarrow>
      fst (get_reviews_page failing_world demo_parser1 page) = Inr (demo_revs page)"
    unfolding demo_pages using failing_page1 by simp
  have c: "concat (map demo_revs (removeAll 2 (pages_range 2))) = [demo_review1]"
    unfolding demo_pages by (simp add: demo_revs_def)
  have o: "mset (map page_offset (pages_range 2)) = {#0, 10#}"
    unfolding demo_pages by (simp add: page_offset_def REVIEWS_PER_PAGE_def)
  note T = parse_parallel_drops_failed_page[OF failing_count demo_last_page w k failing_page2 others,
      of demo_finish, unfolded c o]
  from T failing_count demo_last_page w demo_pages failing_page2 failing_page1 show ?thesis
    by (intro conjI) blast+
qed

section \<open>The page range\<close>

lemma last_page_int: "last_page (JInt n) = Inr (min n 5200 div 10)"
  by (simp add: last_page_def clamp_count_def MAX_REVIEWS_def REVIEWS_PER_PAGE_def min_def)

lemma pages_floor_trunc: "set (pages_range (a div 10)) = {1 .. a sdiv 10}"
proof (cases "0 \<le> a")
  case True
  then show ?thesis
    by (simp add: pages_range_def signed_divide_int_def sgn_if)
next
  case False
  then have "a div 10 < 0" by simp
  moreover from False have "a sdiv 10 \<le> 0"
    by (simp add: signed_divide_int_def sgn_if)
  ultimately show ?thesis by (simp add: pages_range_def)
qed

text \<open>
  Claim C3. For every estimated total, the orchestrator clamps it to 5200, divides the
  clamped value by 10 with Python's \<^verbatim>\<open>//\<close> and requests exactly the pages 1 up to that
  quotient, each once. The quotient of \<^verbatim>\<open>//\<close> is the floor; the pages requested are also
  exactly those up to the quotient truncated towards zero (\<open>sdiv\<close>), since the two
  quotients agree on every total that is not negative and both leave no page otherwise.
  In particular 25 gives the last page 2 (pages 1 and 2) and 6000 gives 520.
\<close>

theorem parse_parallel_page_range:
  assumes "get_app_rating_count w parser = (Inr (JInt estimated_total), p1)"
    and "0 < max_workers"
  shows "last_page (JInt estimated_total) = Inr (min estimated_total 5200 div 10)
       \<and> mset (reviews_offsets (new_requests p1 (snd (parse_parallel w finish max_workers parser)))) =
           mset (map page_offset (pages_range (min estimated_total 5200 div 10)))
       \<and> set (pages_range (min estimated_total 5200 div 10)) = {1 .. min estimated_total 5200 sdiv 10}
       \<and> (0 \<le> estimated_total \<longrightarrow>
            min estimated_total 5200 div 10 = min estimated_total 5200 sdiv 10)
       \<and> last_page (JInt 25) = Inr 2 \<and> pages_range 2 = [1, 2]
       \<and> last_page (JInt 6000) = Inr 520"
proof -
  have tr: "0 \<le> estimated_total \<longrightarrow>
      min estimated_total 5200 div 10 = min estimated_total 5200 sdiv 10"
    by (simp add: signed_divide_int_def sgn_if min_def)
  have lp: "last_page (JInt estimated_total) = Inr (min estimated_total 5200 div 10)"
    by (rule last_page_int)
  have "pages_range 2 = [1, 2]"
    by (simp add: pages_range_def upto_rec1)
  with lp parse_parallel_offsets[OF assms(1) lp assms(2)] pages_floor_trunc tr show ?thesis
    by (simp add: last_page_int)
qed

theorem parse_parallel_page_range_witness:
  "get_app_rating_count demo_world demo_parser = (Inr (JInt 25), demo_parser1)
   \<and> (0::int) < 20
   \<and> last_page (JInt 25) = Inr 2
   \<and> mset (reviews_offsets (new_requests demo_parser1
              (snd (parse_parallel demo_world demo_finish 20 demo_parser)))) = {#0, 10#}
   \<and> set (pages_range 2) = {1 .. 25 sdiv 10}"
proof -
  have w: "(0::int) < 20" by simp
  have d: "min (25::int) 5200 div 10 = 2" by simp
  have o: "mset (map page_offset (pages_range 2)) = {#0, 10#}"
    unfolding demo_pages by (simp add: page_offset_def REVIEWS_PER_PAGE_def)
  have m: "min (25::int) 5200 = 25" by simp
  note T = parse_parallel_page_range[OF demo_count w, of demo_finish, unfolded d o]
  from T have "set (pages_range 2) = {1 .. 25 sdiv 10}"
    unfolding m by blast
  with T demo_count w show ?thesis
    by (intro conjI) blast+
qed

section \<open>The unit of work\<close>

lemma get_reviews_page_pos:
  assumes "0 < page"
  shows "get_reviews_page w p page =
     (if truthy (auth_token p) then
        (page_outcome w (app_name p) (app_id p) (auth_token p) page,
         p\<lparr>session := session p @ [GetReviews (app_name p) (app_id p) (auth_token p) (page_offset page)]\<rparr>)
      else
        (case landing_token w (app_name p) (app_id p) of
           Inl e \<Rightarrow> (Inl e, p\<lparr>session := session p @ [GetLanding (app_name p) (app_id p)]\<rparr>)
         | Inr tok \<Rightarrow>
             (page_outcome w (app_name p) (app_id p) tok page,
              p\<lparr>session := session p @ [GetLanding (app_name p) (app_id p),
                      GetReviews (app_name p) (app_id p) tok (page_offset page)],
                auth_token := tok\<rparr>)))"
proof (cases "truthy (auth_token p)")
  case True
  then show ?thesis
    using assms
    by (cases "fetch_outcome w (app_name p) (app_id p) (auth_token p) (page_offset page)")
       (auto simp add: get_reviews_page_def u_get_reviews_def auth_required_def
        u_get_reviews_body_eq page_outcome_def)
next
  case False
  show ?thesis
  proof (cases "landing_token w (app_name p) (app_id p)")
    case (Inl e)
    with False assms show ?thesis
      by (simp add: get_reviews_page_def u_get_reviews_def auth_required_def u_auth_eq)
  next
    case (Inr tok)
    with False assms show ?thesis
      by (cases "fetch_outcome w (app_name p) (app_id p) tok (page_offset page)")
         (auto simp add: get_reviews_page_def u_get_reviews_def auth_required_def u_auth_eq
          u_get_reviews_body_eq page_outcome_def)
  qed
qed

lemma get_reviews_page_requests:
  assumes "0 < page"
  shows "set (reviews_offsets (new_requests p (snd (get_reviews_page w p page)))) \<subseteq> {page_offset page}"
  by (cases "landing_token w (app_name p) (app_id p)")
     (simp_all add: get_reviews_page_pos[OF assms] new_requests_def)

text \<open>
  Claim C9. For every page number \<open>p \<ge> 1\<close>, \<open>get_reviews_page\<close> invokes the page
  fetch with the offset \<open>(p - 1) * 10\<close>: its result is that of \<open>u_get_reviews\<close> at this
  offset, no review page is requested at any other offset, and a parser that holds a token
  sends exactly one request, for the reviews at this offset.
\<close>

theorem get_reviews_page_offset:
  assumes "1 \<le> page"
  shows "get_reviews_page w p page =
           (case u_get_reviews w p ((page - 1) * 10) of
              (Inl e, p1) \<Rightarrow> (Inl e, p1)
            | (Inr (_, reviews), p1) \<Rightarrow> (Inr reviews, p1))
       \<and> set (reviews_offsets (new_requests p (snd (get_reviews_page w p page)))) \<subseteq> {(page - 1) * 10}
       \<and> (truthy (auth_token p) \<longrightarrow>
            new_requests p (snd (get_reviews_page w p page)) =
              [GetReviews (app_name p) (app_id p) (auth_token p) ((page - 1) * 10)])"
proof -
  have pos: "0 < page" using assms by simp
  have off: "page_offset page = (page - 1) * 10"
    by (simp add: page_offset_def REVIEWS_PER_PAGE_def)
  have "get_reviews_page w p page =
           (case u_get_reviews w p ((page - 1) * 10) of
              (Inl e, p1) \<Rightarrow> (Inl e, p1)
            | (Inr (_, reviews), p1) \<Rightarrow> (Inr reviews, p1))"
    using pos by (simp add: get_reviews_page_def off)
  moreover have "set (reviews_offsets (new_requests p (snd (get_reviews_page w p page)))) \<subseteq> {(page - 1) * 10}"
    using get_reviews_page_requests[OF pos] by (simp only: off)
  moreover have "truthy (auth_token p) \<longrightarrow>
            new_requests p (snd (get_reviews_page w p page)) =
              [GetReviews (app_name p) (app_id p) (auth_token p) ((page - 1) * 10)]"
    by (simp add: get_reviews_page_pos[OF pos] off new_requests_def)
  ultimately show ?thesis by blast
qed

theorem get_reviews_page_offset_witness:
  "(1::int) \<le> 2
   \<and> truthy (auth_token demo_parser1)
   \<and> fst (get_reviews_page demo_world demo_parser1 2) = Inr [demo_review2]
   \<and> new_requests demo_parser1 (snd (get_reviews_page demo_world demo_parser1 2)) =
        [GetReviews ''myapp'' 1 (JStr ''tok'') 10]"
proof -
  have h: "(1::int) \<le> 2" by simp
  have t: "truthy (auth_token demo_parser1)"
    by (simp add: demo_parser1_def)
  have r: "fst (get_reviews_page demo_world demo_parser1 2) = Inr [demo_review2]"
    by code_simp
  from get_reviews_page_offset[OF h, of demo_world demo_parser1] t
  have "new_requests demo_parser1 (snd (get_reviews_page demo_world demo_parser1 2)) =
      [GetReviews (app_name demo_parser1) (app_id demo_parser1) (auth_token demo_parser1) ((2 - 1) * 10)]"
    by blast
  then have "new_requests demo_parser1 (snd (get_reviews_page demo_world demo_parser1 2)) =
        [GetReviews ''myapp'' 1 (JStr ''tok'') 10]"
    by (simp add: demo_parser1_def)
  with h t r show ?thesis by (intro conjI)
qed

text \<open>
  Claim C10. \<open>get_reviews_page\<close> asserts \<open>page > 0\<close>: with \<open>page \<le> 0\<close> it fails the
  assertion, the parser is unchanged and no request is made; with \<open>page \<ge> 1\<close> the
  assertion passes, the offset is not negative and the call is the page fetch at it.
\<close>

theorem get_reviews_page_precondition:
  "(page \<le> 0 \<longrightarrow>
      get_reviews_page w p page = (Inl AssertionError, p)
      \<and> new_requests p (snd (get_reviews_page w p page)) = [])
   \<and> (1 \<le> page \<longrightarrow>
      0 \<le> page_offset page
      \<and> get_reviews_page w p page =
          (case u_get_reviews w p (page_offset page) of
             (Inl e, p1) \<Rightarrow> (Inl e, p1)
           | (Inr (_, reviews), p1) \<Rightarrow> (Inr reviews, p1)))"
  by (simp add: get_reviews_page_def page_offset_def REVIEWS_PER_PAGE_def)

theorem get_reviews_page_precondition_witness:
  "(0::int) \<le> 0
   \<and> get_reviews_page demo_world demo_parser1 0 = (Inl AssertionError, demo_parser1)
   \<and> new_requests demo_parser1 (snd (get_reviews_page demo_world demo_parser1 0)) = []
   \<and> (1::int) \<le> 2
   \<and> 0 \<le> page_offset 2
   \<and> get_reviews_page demo_world demo_parser1 2 =
        (case u_get_reviews demo_world demo_parser1 (page_offset 2) of
           (Inl e, p1) \<Rightarrow> (Inl e, p1)
         | (Inr (_, reviews), p1) \<Rightarrow> (Inr reviews, p1))
   \<and> fst (get_reviews_page demo_world demo_parser1 2) = Inr [demo_review2]"
proof -
  have a: "(0::int) \<le> 0" and b: "(1::int) \<le> 2" by simp_all
  have r: "fst (get_reviews_page demo_world demo_parser1 2) = Inr [demo_review2]"
    by code_simp
  from get_reviews_page_precondition[of 0 demo_world demo_parser1] a
  have z: "get_reviews_page demo_world demo_parser1 0 = (Inl AssertionError, demo_parser1)
      \<and> new_requests demo_parser1 (snd (get_reviews_page demo_world demo_parser1 0)) = []"
    by blast
  from get_reviews_page_precondition[of 2 demo_world demo_parser1] b
  have p: "0 \<le> page_offset 2
      \<and> get_reviews_page demo_world demo_parser1 2 =
          (case u_get_reviews demo_world demo_parser1 (page_offset 2) of
             (Inl e, p1) \<Rightarrow> (Inl e, p1)
           | (Inr (_, reviews), p1) \<Rightarrow> (Inr reviews, p1))"
    by blast
  from a b r z p show ?thesis by blast
qed

section \<open>Which failures end the run\<close>

lemma count_estimation_requests:
  "reviews_offsets (new_requests p (snd (get_app_rating_count w p))) = []"
proof -
  obtain r p1 where e: "get_app_rating_count w p = (r, p1)"
    by (cases "get_app_rating_count w p")
  from get_app_rating_count_cases[OF e] obtain rs where "session p1 = session p @ rs"
    and "reviews_offsets rs = []"
    by blast
  then show ?thesis
    by (simp add: e new_requests_def)
qed

lemma parse_parallel_fatal:
  assumes "fst (get_app_rating_count w parser) = Inl e"
  shows "parse_parallel w finish max_workers parser = (Inl e, snd (get_app_rating_count w parser))"
  using assms by (cases "get_app_rating_count w parser") (simp add: parse_parallel_def)

lemma parse_parallel_contributions:
  assumes "get_app_rating_count w parser = (Inr rating_count, p1)"
    and "last_page rating_count = Inr lp"
    and "0 < max_workers"
  shows "fst (parse_parallel w finish max_workers parser) =
           Inr (concat (map (\<lambda>page. case fst (get_reviews_page w p1 page) of
                                       Inl exc \<Rightarrow> [] | Inr reviews \<Rightarrow> reviews) (pages_range lp)))"
proof -
  have s: "settled w p1"
    using get_app_rating_count_cases[OF assms(1)] by blast
  have m: "map (\<lambda>page. case page_outcome w (app_name p1) (app_id p1) (auth_token p1) page of
                      Inl exc \<Rightarrow> [] | Inr reviews \<Rightarrow> reviews) (pages_range lp) =
        map (\<lambda>page. case fst (get_reviews_page w p1 page) of
                      Inl exc \<Rightarrow> [] | Inr reviews \<Rightarrow> reviews) (pages_range lp)"
  proof (rule map_cong[OF refl])
    fix page
    assume "page \<in> set (pages_range lp)"
    then have "0 < page"
      using pages_range_pos by blast
    then show "(case page_outcome w (app_name p1) (app_id p1) (auth_token p1) page of
                  Inl exc \<Rightarrow> [] | Inr reviews \<Rightarrow> reviews) =
               (case fst (get_reviews_page w p1 page) of
                  Inl exc \<Rightarrow> [] | Inr reviews \<Rightarrow> reviews)"
      by (simp add: outcome_of_page[OF s])
  qed
  show ?thesis
    by (simp add: parse_parallel_result[OF assms] concat_successes m)
qed

text \<open>
  Claim C8. If the count estimation fails (its authentication included), the orchestrator
  ends with that error in the state the estimation left, before any page of reviews is
  requested, and the program ends with it, writing nothing. If the estimation succeeds
  and the page range can be computed, the orchestrator always returns a sequence: a page
  whose fetch fails contributes no reviews, and that is the only failure it catches.
\<close>

theorem count_estimation_failure_is_fatal:
  "(fst (get_app_rating_count w parser) = Inl e \<longrightarrow>
      parse_parallel w finish max_workers parser = (Inl e, snd (get_app_rating_count w parser))
      \<and> reviews_offsets (new_requests parser (snd (parse_parallel w finish max_workers parser))) = [])
   \<and> (fst (get_app_rating_count w (AppStoreParser_init name ident)) = Inl e \<longrightarrow>
      main w finish py_str script_file name ident fs = (Inl e, fs))
   \<and> (get_app_rating_count w parser = (Inr rating_count, p1) \<and> last_page rating_count = Inr lp
        \<and> 0 < max_workers \<longrightarrow>
      fst (parse_parallel w finish max_workers parser) =
        Inr (concat (map (\<lambda>page. case fst (get_reviews_page w p1 page) of
                                    Inl exc \<Rightarrow> [] | Inr reviews \<Rightarrow> reviews) (pages_range lp))))"
proof (intro conjI impI)
  assume f: "fst (get_app_rating_count w parser) = Inl e"
  show "parse_parallel w finish max_workers parser = (Inl e, snd (get_app_rating_count w parser))"
    using f by (rule parse_parallel_fatal)
  then show "reviews_offsets (new_requests parser (snd (parse_parallel w finish max_workers parser))) = []"
    by (simp add: count_estimation_requests)
next
  assume "fst (get_app_rating_count w (AppStoreParser_init name ident)) = Inl e"
  then show "main w finish py_str script_file name ident fs = (Inl e, fs)"
    by (simp add: main_def parse_parallel_fatal)
next
  assume "get_app_rating_count w parser = (Inr rating_count, p1) \<and> last_page rating_count = Inr lp
        \<and> 0 < max_workers"
  then show "fst (parse_parallel w finish max_workers parser) =
        Inr (concat (map (\<lambda>page. case fst (get_reviews_page w p1 page) of
                                    Inl exc \<Rightarrow> [] | Inr reviews \<Rightarrow> reviews) (pages_range lp)))"
    by (simp add: parse_parallel_contributions)
qed

lemma refusing_count: "fst (get_app_rating_count refusing_world demo_parser) = Inl (HTTPError 403)"
  by code_simp

lemma tokenless_count: "fst (get_app_rating_count tokenless_world demo_parser) = Inl AttributeError"
  by code_simp

theorem count_estimation_failure_is_fatal_witness:
  "fst (get_app_rating_count refusing_world demo_parser) = Inl (HTTPError 403)
   \<and> fst (parse_parallel refusing_world demo_finish 20 demo_parser) = Inl (HTTPError 403)
   \<and> reviews_offsets (new_requests demo_parser (snd (parse_parallel refusing_world demo_finish 20 demo_parser))) = []
   \<and> main refusing_world demo_finish demo_str ''/opt/tool/app_store_parse.py'' ''myapp'' 1 demo_fs =
        (Inl (HTTPError 403), demo_fs)
   \<and> fst (get_app_rating_count tokenless_world demo_parser) = Inl AttributeError
   \<and> fst (parse_parallel tokenless_world demo_finish 20 demo_parser) = Inl AttributeError
   \<and> get_app_rating_count failing_world demo_parser = (Inr (JInt 25), demo_parser1)
   \<and> last_page (JInt 25) = Inr 2
   \<and> (0::int) < 20
   \<and> fst (parse_parallel failing_world demo_finish 20 demo_parser) = Inr [demo_review1]"
proof -
  have w: "(0::int) < 20" by simp
  have i: "AppStoreParser_init ''myapp'' 1 = demo_parser"
    by (simp add: demo_parser_def)
  note R = count_estimation_failure_is_fatal[of refusing_world demo_parser "HTTPError 403"
      demo_finish 20 "''myapp''" 1 demo_str "''/opt/tool/app_store_parse.py''" demo_fs, unfolded i]
  note K = count_estimation_failure_is_fatal[of tokenless_world demo_parser AttributeError
      demo_finish 20]
  note F = count_estimation_failure_is_fatal[of failing_world demo_parser _ demo_finish 20
      _ _ _ _ _ "JInt 25" demo_parser1 2]
  have c: "concat (map (\<lambda>page. case fst (get_reviews_page failing_world demo_parser1 page) of
                                    Inl exc \<Rightarrow> [] | Inr reviews \<Rightarrow> reviews) (pages_range 2)) =
      [demo_review1]"
    unfolding demo_pages by (simp add: failing_page1 failing_page2 demo_revs_def)
  note R1 = R[THEN conjunct1, THEN mp, OF refusing_count]
  have r1: "fst (parse_parallel refusing_world demo_finish 20 demo_parser) = Inl (HTTPError 403)"
    by (simp add: R1[THEN conjunct1])
  have r2: "reviews_offsets (new_requests demo_parser
        (snd (parse_parallel refusing_world demo_finish 20 demo_parser))) = []"
    by (rule R1[THEN conjunct2])
  have r3: "main refusing_world demo_finish demo_str ''/opt/tool/app_store_parse.py'' ''myapp'' 1 demo_fs =
        (Inl (HTTPError 403), demo_fs)"
    by (rule R[THEN conjunct2, THEN conjunct1, THEN mp, OF refusing_count])
  have k1: "fst (parse_parallel tokenless_world demo_finish 20 demo_parser) = Inl AttributeError"
    by (simp add: K[THEN conjunct1, THEN mp, OF tokenless_count, THEN conjunct1])
  from F failing_count demo_last_page w
  have f1: "fst (parse_parallel failing_world demo_finish 20 demo_parser) = Inr [demo_review1]"
    unfolding c by blast
  from refusing_count r1 r2 r3 tokenless_count k1 failing_count demo_last_page w f1
  show ?thesis by (intro conjI)
qed

section \<open>Decoding a page\<close>

lemma and_then_Inr: "and_then x f = Inr y \<longleftrightarrow> (\<exists>v. x = Inr v \<and> f v = Inr y)"
  by (cases x) auto

lemma getitem_Inr: "getitem j k = Inr v \<longleftrightarrow> (\<exists>kvs. j = JObj kvs \<and> map_of kvs k = Some v)"
  by (cases j) (auto split: option.splits)

lemma get_method_Inr:
  "get_method j k = Inr v \<longleftrightarrow>
     (\<exists>kvs. j = JObj kvs \<and> v = (case map_of kvs k of Some u \<Rightarrow> u | None \<Rightarrow> JNull))"
  by (cases j) auto

lemma parse_review_Inr:
  assumes "parse_review rec = Inr r"
  shows "\<exists>kvs attrs. rec = JObj kvs \<and> map_of kvs ''attributes'' = Some (JObj attrs)
           \<and> map_of attrs ''userName'' = Some (user_name r)
           \<and> map_of attrs ''review'' = Some (review r)
           \<and> map_of attrs ''isEdited'' = Some (is_edited r)
           \<and> map_of attrs ''date'' = Some (last_update r)
           \<and> map_of attrs ''rating'' = Some (rating r)
           \<and> map_of attrs ''title'' = Some (title r)
           \<and> (case map_of attrs ''developerResponse'' of
                 None \<Rightarrow> developer_response r = None
               | Some JNull \<Rightarrow> developer_response r = None
               | Some dr \<Rightarrow>
                   (\<exists>ds. dr = JObj ds \<and>
                      (\<exists>d. developer_response r = Some d
                         \<and> map_of ds ''id'' = Some (developer_id d)
                         \<and> map_of ds ''body'' = Some (body d)
                         \<and> map_of ds ''modified'' = Some (modified d))))"
  using assms
  apply (simp add: parse_review_def and_then_Inr getitem_Inr get_method_Inr)
  apply (elim exE conjE)
  apply (auto split: option.splits json.splits if_splits simp add: and_then_Inr getitem_Inr)
  done

lemma parse_review_complete:
  assumes "parse_review rec = Inr r" and "k \<in> set required_fields"
  shows "record_field rec k \<noteq> None"
proof -
  from parse_review_Inr[OF assms(1)] obtain kvs attrs where
    "rec = JObj kvs" "map_of kvs ''attributes'' = Some (JObj attrs)"
    "map_of attrs ''userName'' = Some (user_name r)"
    "map_of attrs ''review'' = Some (review r)"
    "map_of attrs ''isEdited'' = Some (is_edited r)"
    "map_of attrs ''date'' = Some (last_update r)"
    "map_of attrs ''rating'' = Some (rating r)"
    "map_of attrs ''title'' = Some (title r)"
    by blast
  with assms(2) show ?thesis
    by (auto simp add: record_field_def required_fields_def)
qed

lemma parse_reviews_Inr:
  "parse_reviews recs acc = Inr rs \<Longrightarrow>
     length rs = length acc + length recs \<and> (\<forall>rec\<in>set recs. \<exists>r. parse_review rec = Inr r)"
  by (induction recs arbitrary: acc) (auto split: sum.splits)

lemma decode_page_Inr:
  assumes "decode_page page_json = Inr (nxt, reviews)"
    and "getitem page_json ''data'' = Inr (JList recs)"
  shows "length reviews = length recs \<and> (\<forall>rec\<in>set recs. \<exists>r. parse_review rec = Inr r)"
  using assms parse_reviews_Inr[of recs "[]" reviews]
  by (auto simp add: decode_page_def and_then_Inr)

lemma decode_page_defective:
  assumes "getitem page_json ''data'' = Inr (JList recs)"
    and "rec \<in> set recs" and "k \<in> set required_fields" and "record_field rec k = None"
  shows "\<exists>e. decode_page page_json = Inl e"
proof (cases "decode_page page_json")
  case (Inl e)
  then show ?thesis by blast
next
  case (Inr x)
  then have "decode_page page_json = Inr (fst x, snd x)" by simp
  from decode_page_Inr[OF this assms(1)] assms(2) obtain r where "parse_review rec = Inr r"
    by blast
  from parse_review_complete[OF this assms(3)] assms(4) show ?thesis by simp
qed

text \<open>
  Claim C5. When a record of a page's \<open>data\<close> lacks one of the required fields
  (userName, review, isEdited, date, rating, title), decoding the page fails, and so does
  the fetch of the page by a parser that holds a token (or whose authentication yields the
  token it holds again): the page yields an error and no reviews. There is no partial
  decoding: a page that decodes yields one Review per record and every record has all six
  fields.
\<close>

theorem defective_record_fails_page:
  assumes "getitem page_json ''data'' = Inr (JList recs)"
  shows "(rec \<in> set recs \<and> k \<in> set required_fields \<and> record_field rec k = None \<longrightarrow>
            (\<exists>e. decode_page page_json = Inl e)
            \<and> (settled w p \<and> 0 < page
                 \<and> http w (GetReviews (app_name p) (app_id p) (auth_token p) (page_offset page)) = Inr resp
                 \<and> json_body resp = Some page_json \<longrightarrow>
               (\<exists>e. fst (get_reviews_page w p page) = Inl e)))
       \<and> (decode_page page_json = Inr (nxt, reviews) \<longrightarrow>
            length reviews = length recs
            \<and> (\<forall>rec\<in>set recs. \<forall>k\<in>set required_fields. record_field rec k \<noteq> None))"
proof (intro conjI impI)
  assume d: "rec \<in> set recs \<and> k \<in> set required_fields \<and> record_field rec k = None"
  then obtain e where e: "decode_page page_json = Inl e"
    using decode_page_defective[OF assms] by blast
  then show "\<exists>e. decode_page page_json = Inl e" by blast
  assume f: "settled w p \<and> 0 < page
      \<and> http w (GetReviews (app_name p) (app_id p) (auth_token p) (page_offset page)) = Inr resp
      \<and> json_body resp = Some page_json"
  then have "fst (get_reviews_page w p page) =
      page_outcome w (app_name p) (app_id p) (auth_token p) page"
    by (simp add: outcome_of_page)
  also have "\<dots> = (case raise_for_status resp of Inl e' \<Rightarrow> Inl e' | Inr u \<Rightarrow> Inl e)"
    using f e by (cases "raise_for_status resp") (simp_all add: page_outcome_def fetch_outcome_def)
  finally show "\<exists>e. fst (get_reviews_page w p page) = Inl e"
    by (cases "raise_for_status resp") simp_all
next
  assume s: "decode_page page_json = Inr (nxt, reviews)"
  from decode_page_Inr[OF s assms] show "length reviews = length recs"
    by blast
  from decode_page_Inr[OF s assms] parse_review_complete
  show "\<forall>rec\<in>set recs. \<forall>k\<in>set required_fields. record_field rec k \<noteq> None"
    by blast
qed

lemma defective_data:
  "getitem (JObj [(''data'', JList [demo_record2, demo_record3])]) ''data'' =
     Inr (JList [demo_record2, demo_record3])"
  by simp

lemma ok_data:
  "getitem (JObj [(''data'', JList [demo_record2])]) ''data'' = Inr (JList [demo_record2])"
  by simp

theorem defective_record_fails_page_witness:
  "getitem (JObj [(''data'', JList [demo_record2, demo_record3])]) ''data'' =
     Inr (JList [demo_record2, demo_record3])
   \<and> demo_record3 \<in> set [demo_record2, demo_record3]
   \<and> ''title'' \<in> set required_fields
   \<and> record_field demo_record3 ''title'' = None
   \<and> (\<exists>e. decode_page (JObj [(''data'', JList [demo_record2, demo_record3])]) = Inl e)
   \<and> settled defective_world demo_parser1
   \<and> (0::int) < 2
   \<and> http defective_world (GetReviews (app_name demo_parser1) (app_id demo_parser1)
         (auth_token demo_parser1) (page_offset 2)) = demo_page [demo_record2, demo_record3]
   \<and> (\<exists>e. fst (get_reviews_page defective_world demo_parser1 2) = Inl e)
   \<and> getitem (JObj [(''data'', JList [demo_record2])]) ''data'' = Inr (JList [demo_record2])
   \<and> decode_page (JObj [(''data'', JList [demo_record2])]) = Inr (JNull, [demo_review2])
   \<and> length [demo_review2] = length [demo_record2]"
proof -
  let ?resp = "\<lparr>status_code = 200,
      json_body = Some (JObj [(''data'', JList [demo_record2, demo_record3])]),
      meta_config = Inl AttributeError\<rparr>"
  have a: "demo_record3 \<in> set [demo_record2, demo_record3]" by simp
  have b: "''title'' \<in> set required_fields"
    by (simp add: required_fields_def)
  have c: "record_field demo_record3 ''title'' = None"
    by (simp add: record_field_def demo_record3_def)
  have s: "settled defective_world demo_parser1"
    by (simp add: settled_def demo_parser1_def)
  have z: "(0::int) < 2" by simp
  have h: "http defective_world (GetReviews (app_name demo_parser1) (app_id demo_parser1)
         (auth_token demo_parser1) (page_offset 2)) = demo_page [demo_record2, demo_record3]"
    by (simp add: defective_world_def demo_parser1_def page_offset_def REVIEWS_PER_PAGE_def)
  have h': "http defective_world (GetReviews (app_name demo_parser1) (app_id demo_parser1)
         (auth_token demo_parser1) (page_offset 2)) = Inr ?resp"
    unfolding h by (simp add: demo_page_def)
  have j: "json_body ?resp = Some (JObj [(''data'', JList [demo_record2, demo_record3])])"
    by simp
  have ok: "decode_page (JObj [(''data'', JList [demo_record2])]) = Inr (JNull, [demo_review2])"
    by code_simp
  note D = defective_record_fails_page[OF defective_data,
      of demo_record3 "''title''" defective_world demo_parser1 2 ?resp]
  note D1 = D[THEN conjunct1, THEN mp, OF conjI[OF a conjI[OF b c]]]
  have f: "\<exists>e. fst (get_reviews_page defective_world demo_parser1 2) = Inl e"
    by (rule D1[THEN conjunct2, THEN mp, OF conjI[OF s conjI[OF z conjI[OF h' j]]]])
  note O = defective_record_fails_page[OF ok_data, of _ _ _ _ _ _ JNull "[demo_review2]",
      THEN conjunct2, THEN mp, OF ok, THEN conjunct1]
  from defective_data a b c D1[THEN conjunct1] s z h f ok_data ok O show ?thesis
    by (intro conjI)
qed

text \<open>
  Claim C6. For every record that decodes, the Review has a developer response if and
  only if the record includes a developerResponse object, and then its \<open>developer_id\<close>,
  \<open>body\<close> and \<open>modified\<close> are the object's \<open>id\<close>, \<open>body\<close> and \<open>modified\<close>;
  without one the field is absent.
\<close>

theorem developer_response_iff_included:
  assumes "parse_review rec = Inr r"
  shows "(developer_response r = None \<longleftrightarrow> included_response rec = None)
       \<and> (\<forall>d. developer_response r = Some d \<longrightarrow>
            (\<exists>ds. included_response rec = Some (JObj ds)
               \<and> map_of ds ''id'' = Some (developer_id d)
               \<and> map_of ds ''body'' = Some (body d)
               \<and> map_of ds ''modified'' = Some (modified d)))"
proof -
  from parse_review_Inr[OF assms] obtain kvs attrs where
    rec: "rec = JObj kvs" "map_of kvs ''attributes'' = Some (JObj attrs)"
    and dev: "(case map_of attrs ''developerResponse'' of
                 None \<Rightarrow> developer_response r = None
               | Some JNull \<Rightarrow> developer_response r = None
               | Some dr \<Rightarrow>
                   (\<exists>ds. dr = JObj ds \<and>
                      (\<exists>d. developer_response r = Some d
                         \<and> map_of ds ''id'' = Some (developer_id d)
                         \<and> map_of ds ''body'' = Some (body d)
                         \<and> map_of ds ''modified'' = Some (modified d))))"
    by blast
  have inc: "included_response rec =
      (case map_of attrs ''developerResponse'' of Some JNull \<Rightarrow> None | other \<Rightarrow> other)"
    by (simp add: included_response_def record_field_def rec)
  show ?thesis
  proof (cases "map_of attrs ''developerResponse''")
    case None
    with dev inc show ?thesis by simp
  next
    case (Some dr)
    show ?thesis
    proof (cases "dr = JNull")
      case True
      with Some dev inc show ?thesis by simp
    next
      case False
      with Some dev obtain ds d where "dr = JObj ds" "developer_response r = Some d"
        "map_of ds ''id'' = Some (developer_id d)" "map_of ds ''body'' = Some (body d)"
        "map_of ds ''modified'' = Some (modified d)"
        by (cases dr) auto
      with Some inc show ?thesis by simp
    qed
  qed
qed

lemma demo_parse1: "parse_review demo_record1 = Inr demo_review1"
  by code_simp

lemma demo_parse2: "parse_review demo_record2 = Inr demo_review2"
  by code_simp

theorem developer_response_iff_included_witness:
  "parse_review demo_record1 = Inr demo_review1
   \<and> included_response demo_record1 =
       Some (JObj [(''id'', JInt 7), (''body'', JStr ''thanks''), (''modified'', JStr ''2020-01-02'')])
   \<and> developer_response demo_review1 =
       Some \<lparr>developer_id = JInt 7, body = JStr ''thanks'', modified = JStr ''2020-01-02''\<rparr>
   \<and> parse_review demo_record2 = Inr demo_review2
   \<and> included_response demo_record2 = None
   \<and> developer_response demo_review2 = None"
proof -
  have i1: "included_response demo_record1 =
       Some (JObj [(''id'', JInt 7), (''body'', JStr ''thanks''), (''modified'', JStr ''2020-01-02'')])"
    by (simp add: included_response_def record_field_def demo_record1_def)
  have i2: "included_response demo_record2 = None"
    by (simp add: included_response_def record_field_def demo_record2_def)
  have d1: "developer_response demo_review1 =
       Some \<lparr>developer_id = JInt 7, body = JStr ''thanks'', modified = JStr ''2020-01-02''\<rparr>"
    by (simp add: demo_review1_def)
  from developer_response_iff_included[OF demo_parse2] i2
  have d2: "developer_response demo_review2 = None"
    by blast
  from demo_parse1 i1 d1 demo_parse2 i2 d2 show ?thesis
    by (intro conjI)
qed

section \<open>The sink writes the scalar fields\<close>

lemma row_of_review:
  "del_item ''developer_response'' (review_dict r) = Inr (zip fieldnames (scalar_fields r))"
  by (simp add: del_item_def review_dict_def fieldnames_def scalar_fields_def)

lemma dict_to_list_row: "dict_to_list fieldnames (zip fieldnames (scalar_fields r)) = Inr (scalar_fields r)"
  by (simp add: dict_to_list_def fieldnames_def scalar_fields_def)

lemma dict_to_list_header:
  "dict_to_list fieldnames (zip fieldnames (map (\<lambda>n. Json (JStr n)) fieldnames)) = Inr header_row"
  by (simp add: dict_to_list_def fieldnames_def header_row_def)

lemma header_text:
  "row_text py_str header_row =
     ''user_name,title,review,is_edited,last_update,rating'' @ [CHR 0x0D, CHR 0x0A]"
  by (simp add: row_text_def header_row_def fieldnames_def cell_text_def quoted_def needs_quotes_def)

lemma header_encodable: "\<not> has_surrogate (row_text py_str header_row)"
  by (simp add: header_text)

lemma writeheader_eq: "DictWriter_writeheader py_str f = (Inr (), f @ row_text py_str header_row)"
  by (simp add: DictWriter_writeheader_def DictWriter_writerow_def dict_to_list_header
      file_write_def header_encodable)

lemma write_rows_eq:
  "write_rows py_str reviews f =
     (if \<forall>row\<in>set (map scalar_fields reviews). \<not> has_surrogate (row_text py_str row)
      then Inr () else Inl UnicodeEncodeError,
      f @ concat (map (row_text py_str)
                   (takeWhile (\<lambda>row. \<not> has_surrogate (row_text py_str row))
                      (map scalar_fields reviews))))"
  by (induction reviews arbitrary: f)
     (simp_all add: row_of_review DictWriter_writerow_def dict_to_list_row file_write_def)

lemma write_reviews_eq:
  "write_reviews py_str reviews path fs =
     (if unwritable fs (abspath fs path) then (Inl OSError, fs)
      else
        (if \<forall>row\<in>set (map scalar_fields reviews). \<not> has_surrogate (row_text py_str row)
         then Inr () else Inl UnicodeEncodeError,
         fs\<lparr>files := (files fs)(abspath fs path \<mapsto>
              concat (map (row_text py_str)
                (header_row # takeWhile (\<lambda>row. \<not> has_surrogate (row_text py_str row))
                                (map scalar_fields reviews))))\<rparr>))"
  by (simp add: write_reviews_def open_w_def writeheader_eq write_rows_eq)

lemma takeWhile_all: "\<forall>x\<in>set xs. P x \<Longrightarrow> takeWhile P xs = xs"
  by (induction xs) simp_all

lemma write_reviews_ok:
  assumes "\<not> unwritable fs (abspath fs path)"
    and "\<forall>r\<in>set reviews. \<not> has_surrogate (row_text py_str (scalar_fields r))"
  shows "write_reviews py_str reviews path fs =
           (Inr (), fs\<lparr>files := (files fs)(abspath fs path \<mapsto>
              concat (map (row_text py_str) (header_row # map scalar_fields reviews)))\<rparr>)"
proof -
  have a: "\<forall>row\<in>set (map scalar_fields reviews). \<not> has_surrogate (row_text py_str row)"
    using assms(2) by simp
  show ?thesis
    unfolding write_reviews_eq takeWhile_all[OF a]
    using assms(1) a by simp
qed

lemma write_reviews_Inr:
  assumes "write_reviews py_str reviews path fs = (Inr (), fs')"
  shows "fs' = fs\<lparr>files := (files fs)(abspath fs path \<mapsto>
              concat (map (row_text py_str) (header_row # map scalar_fields reviews)))\<rparr>"
proof -
  from assms have u: "\<not> unwritable fs (abspath fs path)"
    and a: "\<forall>row\<in>set (map scalar_fields reviews). \<not> has_surrogate (row_text py_str row)"
    unfolding write_reviews_eq by (auto split: if_splits)
  from assms show ?thesis
    unfolding write_reviews_eq takeWhile_all[OF a]
    using u by (simp split: if_splits)
qed

lemma scalar_fields_response [simp]:
  "scalar_fields (r\<lparr>developer_response := d\<rparr>) = scalar_fields r"
  by (simp add: scalar_fields_def)


lemma demo_rows:
  "concat (map (row_text demo_str) (header_row # map scalar_fields [demo_review1, demo_review2])) =
     demo_csv"
  by (simp add: header_text demo_csv_def)
     (simp add: row_text_def scalar_fields_def demo_review1_def demo_review2_def cell_text_def
        quoted_def needs_quotes_def)

lemma demo_encodable:
  "\<forall>r\<in>set [demo_review1, demo_review2]. \<not> has_surrogate (row_text demo_str (scalar_fields r))"
  by (simp add: row_text_def scalar_fields_def demo_review1_def demo_review2_def cell_text_def
        quoted_def needs_quotes_def)





section \<open>Where the output goes\<close>

lemma path_join_last: "n \<noteq> [] \<Longrightarrow> path_join b n \<noteq> [] \<and> last (path_join b n) = last n"
  by (simp add: path_join_def)

lemma output_is_not_log:
  "abspath fs (path_join d (name @ ''.csv'')) \<noteq> abspath fs (path_join d ''.log'')"
proof -
  have "last (abspath fs (path_join d (name @ ''.csv''))) = CHR ''v''"
    using path_join_last[of "name @ ''.csv''" d]
      path_join_last[of "path_join d (name @ ''.csv'')" "cwd fs"]
    by (simp add: abspath_def)
  moreover have "last (abspath fs (path_join d ''.log'')) = CHR ''g''"
    using path_join_last[of "''.log''" d] path_join_last[of "path_join d ''.log''" "cwd fs"]
    by (simp add: abspath_def)
  ultimately show ?thesis by auto
qed

lemma dirname_slash_free: "CHR ''/'' \<notin> set n \<Longrightarrow> dirname n = []"
proof -
  assume "CHR ''/'' \<notin> set n"
  then have e: "dropWhile (\<lambda>c. c \<noteq> CHR ''/'') (rev n) = []"
    by (auto simp add: dropWhile_eq_Nil_conv)
  show ?thesis unfolding dirname_def e by simp
qed

lemma basename_slash_free: "CHR ''/'' \<notin> set n \<Longrightarrow> basename n = n"
proof -
  assume "CHR ''/'' \<notin> set n"
  then have e: "takeWhile (\<lambda>c. c \<noteq> CHR ''/'') (rev n) = rev n"
    by (auto simp add: takeWhile_eq_all_conv)
  show ?thesis unfolding basename_def e by simp
qed

lemma basename_after_slash:
  assumes "CHR ''/'' \<notin> set n" and "x \<noteq> []" and "last x = CHR ''/''"
  shows "basename (x @ n) = n"
proof -
  from assms(2,3) obtain y where x: "x = y @ ''/''"
    by (cases x rule: rev_cases) auto
  have "takeWhile (\<lambda>c. c \<noteq> CHR ''/'') (rev n @ CHR ''/'' # rev y) = rev n"
    using assms(1) by (subst takeWhile_append2) auto
  then show ?thesis by (simp add: basename_def x)
qed

lemma head_after_slash:
  assumes "CHR ''/'' \<notin> set n" and "x \<noteq> []" and "last x = CHR ''/''"
  shows "rev (dropWhile (\<lambda>c. c \<noteq> CHR ''/'') (rev (x @ n))) = x"
proof -
  from assms(2,3) obtain y where x: "x = y @ ''/''"
    by (cases x rule: rev_cases) auto
  have "dropWhile (\<lambda>c. c \<noteq> CHR ''/'') (rev n @ CHR ''/'' # rev y) = CHR ''/'' # rev y"
    using assms(1) by (subst dropWhile_append2) auto
  then show ?thesis by (simp add: x)
qed

lemma dirname_shape:
  assumes "dirname p \<noteq> []" and "last (dirname p) = CHR ''/''"
  shows "filter (\<lambda>c. c \<noteq> CHR ''/'') (dirname p) = []"
proof -
  define head where "head = rev (dropWhile (\<lambda>c. c \<noteq> CHR ''/'') (rev p))"
  show ?thesis
  proof (cases "filter (\<lambda>c. c \<noteq> CHR ''/'') head = []")
    case True
    then show ?thesis by (simp add: dirname_def head_def)
  next
    case False
    then have d: "dirname p = rev (dropWhile (\<lambda>c. c = CHR ''/'') (rev head))"
      by (simp add: dirname_def head_def)
    with assms(1) have ne: "dropWhile (\<lambda>c. c = CHR ''/'') (rev head) \<noteq> []" by simp
    then have "hd (dropWhile (\<lambda>c. c = CHR ''/'') (rev head)) \<noteq> CHR ''/''"
      using hd_dropWhile by blast
    with ne have "last (dirname p) \<noteq> CHR ''/''"
      by (simp add: d last_rev)
    with assms(2) show ?thesis by simp
  qed
qed

lemma output_in_script_directory:
  assumes "CHR ''/'' \<notin> set name"
  shows "basename (path_join (dirname p) (name @ ''.csv'')) = name @ ''.csv''
       \<and> dirname (path_join (dirname p) (name @ ''.csv'')) =
           (if dirname p = ''.'' then [] else dirname p)"
proof -
  let ?n = "name @ ''.csv''"
  let ?d = "dirname p"
  have n: "CHR ''/'' \<notin> set ?n" using assms by simp
  have t: "take 1 ?n \<noteq> ''/''"
    using assms by (cases name) auto
  show ?thesis
  proof (cases "?d = [] \<or> ?d = ''.''")
    case True
    then have "path_join ?d ?n = ?n"
      using t by (auto simp add: path_join_def)
    with True n show ?thesis
      by (auto simp add: basename_slash_free dirname_slash_free)
  next
    case False
    show ?thesis
    proof (cases "last ?d = CHR ''/''")
      case True
      with False t have j: "path_join ?d ?n = ?d @ ?n"
        by (simp add: path_join_def)
      from False True have f: "filter (\<lambda>c. c \<noteq> CHR ''/'') ?d = []"
        using dirname_shape by blast
      from False have ne: "?d \<noteq> []" by simp
      have "dirname (?d @ ?n) = ?d"
        unfolding dirname_def[of "?d @ ?n"] head_after_slash[OF n ne True]
        using f by (simp add: Let_def)
      with False show ?thesis
        unfolding j using basename_after_slash[OF n ne True] by simp
    next
      case nl: False
      with False t have j: "path_join ?d ?n = (?d @ ''/'') @ ?n"
        by (simp add: path_join_def)
      have ne: "?d @ ''/'' \<noteq> []" and l: "last (?d @ ''/'') = CHR ''/''" by simp_all
      from False obtain ys y where dy: "?d = ys @ [y]"
        by (cases ?d rule: rev_cases) auto
      with nl have y: "y \<noteq> CHR ''/''" by simp
      have f: "filter (\<lambda>c. c \<noteq> CHR ''/'') (?d @ ''/'') \<noteq> []"
        unfolding dy using y by simp
      have dw: "dropWhile (\<lambda>c. c = CHR ''/'') (rev ?d) = rev ?d"
        unfolding dy using y by simp
      have "dirname ((?d @ ''/'') @ ?n) = ?d"
        unfolding dirname_def[of "(?d @ ''/'') @ ?n"] head_after_slash[OF n ne l]
        using f dw by (simp add: Let_def)
      with False show ?thesis
        unfolding j using basename_after_slash[OF n ne l] by simp
    qed
  qed
qed


lemma main_eq:
  "main w finish py_str script_file name ident fs =
     (case fst (parse_parallel w finish 20 (AppStoreParser_init name ident)) of
        Inl e \<Rightarrow> (Inl e, fs)
      | Inr reviews \<Rightarrow>
          write_reviews py_str reviews (path_join (dirname script_file) (name @ ''.csv'')) fs)"
  by (cases "parse_parallel w finish 20 (AppStoreParser_init name ident)")
     (simp add: main_def BASE_PATH_def split: sum.splits)

lemma main_Inr:
  assumes "main w finish py_str script_file name ident fs = (Inr (), fs')"
  shows "\<exists>reviews. fst (parse_parallel w finish 20 (AppStoreParser_init name ident)) = Inr reviews
           \<and> fs' = fs\<lparr>files := (files fs)
                (abspath fs (path_join (dirname script_file) (name @ ''.csv'')) \<mapsto>
                   concat (map (row_text py_str) (header_row # map scalar_fields reviews)))\<rparr>"
proof -
  from assms obtain reviews where
    r: "fst (parse_parallel w finish 20 (AppStoreParser_init name ident)) = Inr reviews"
    and wr: "write_reviews py_str reviews (path_join (dirname script_file) (name @ ''.csv'')) fs =
      (Inr (), fs')"
    by (cases "fst (parse_parallel w finish 20 (AppStoreParser_init name ident))")
       (simp_all add: main_eq)
  from r write_reviews_Inr[OF wr] show ?thesis by blast
qed

lemma program_Inr:
  assumes "program w finish py_str log_text script_file name ident fs = (Inr (), fs')"
  shows "\<exists>reviews. fst (parse_parallel w finish 20 (AppStoreParser_init name ident)) = Inr reviews
           \<and> files fs' (abspath fs (path_join (dirname script_file) (name @ ''.csv''))) =
               Some (concat (map (row_text py_str) (header_row # map scalar_fields reviews)))"
proof -
  let ?log = "path_join (dirname script_file) ''.log''"
  let ?out = "path_join (dirname script_file) (name @ ''.csv'')"
  from assms obtain fs0 where o: "open_a fs (LOG_FILE_PATH script_file) = Inr fs0"
    by (cases "open_a fs (LOG_FILE_PATH script_file)") (simp_all add: program_def)
  then have c: "cwd fs0 = cwd fs"
    by (auto simp add: open_a_def split: if_splits)
  obtain r fs1 where m: "main w finish py_str script_file name ident fs0 = (r, fs1)"
    by (cases "main w finish py_str script_file name ident fs0")
  with assms o have r: "r = Inr ()"
    and f: "fs' = append_text fs1 (LOG_FILE_PATH script_file) log_text"
    by (simp_all add: program_def)
  from main_Inr[OF m[unfolded r]] obtain reviews where
    p: "fst (parse_parallel w finish 20 (AppStoreParser_init name ident)) = Inr reviews"
    and f1: "fs1 = fs0\<lparr>files := (files fs0)(abspath fs0 ?out \<mapsto>
                   concat (map (row_text py_str) (header_row # map scalar_fields reviews)))\<rparr>"
    by blast
  have a: "abspath fs1 ?log = abspath fs ?log" "abspath fs0 ?out = abspath fs ?out"
    by (simp_all add: abspath_def f1 c)
  have "files fs' (abspath fs ?out) =
      Some (concat (map (row_text py_str) (header_row # map scalar_fields reviews)))"
    using output_is_not_log[of fs "dirname script_file" name]
    by (simp add: f append_text_def LOG_FILE_PATH_def BASE_PATH_def a) (simp add: f1 a)
  with p show ?thesis by blast
qed

text \<open>
  Claim C4, as amended. A run that succeeds writes its output to the path
  \<^verbatim>\<open>BASE_PATH / '<app_name>.csv'\<close>, where \<^verbatim>\<open>BASE_PATH = dirname(__file__)\<close> is the directory
  of the program's script file. For every \<open>app_name\<close> without a slash this is the file
  named \<^verbatim>\<open><app_name>.csv\<close> in that directory (the empty directory name standing for the
  current directory). It is the file \<^verbatim>\<open><app_name>.csv\<close> of the working directory when
  the script's directory is the working directory, or the script's path has no directory
  part, and \<open>app_name\<close> does not begin with a slash.
\<close>

theorem program_output_path:
  assumes "program w finish py_str log_text script_file name ident fs = (Inr (), fs')"
  shows "(\<exists>reviews. fst (parse_parallel w finish 20 (AppStoreParser_init name ident)) = Inr reviews
           \<and> files fs' (abspath fs (path_join (dirname script_file) (name @ ''.csv''))) =
               Some (concat (map (row_text py_str) (header_row # map scalar_fields reviews))))
       \<and> (CHR ''/'' \<notin> set name \<longrightarrow>
            basename (path_join (dirname script_file) (name @ ''.csv'')) = name @ ''.csv''
            \<and> dirname (path_join (dirname script_file) (name @ ''.csv'')) =
                (if dirname script_file = ''.'' then [] else dirname script_file))
       \<and> (take 1 name \<noteq> ''/'' \<and> take 1 (cwd fs) = ''/'' \<and>
            (dirname script_file = [] \<or> dirname script_file = ''.'' \<or> dirname script_file = cwd fs) \<longrightarrow>
            abspath fs (path_join (dirname script_file) (name @ ''.csv'')) =
              path_join (cwd fs) (name @ ''.csv''))"
proof (intro conjI impI)
  show "\<exists>reviews. fst (parse_parallel w finish 20 (AppStoreParser_init name ident)) = Inr reviews
           \<and> files fs' (abspath fs (path_join (dirname script_file) (name @ ''.csv''))) =
               Some (concat (map (row_text py_str) (header_row # map scalar_fields reviews)))"
    using assms by (rule program_Inr)
next
  assume "CHR ''/'' \<notin> set name"
  then show "basename (path_join (dirname script_file) (name @ ''.csv'')) = name @ ''.csv''"
    and "dirname (path_join (dirname script_file) (name @ ''.csv'')) =
                (if dirname script_file = ''.'' then [] else dirname script_file)"
    using output_in_script_directory by blast+
next
  assume a: "take 1 name \<noteq> ''/'' \<and> take 1 (cwd fs) = ''/'' \<and>
            (dirname script_file = [] \<or> dirname script_file = ''.'' \<or> dirname script_file = cwd fs)"
  then have n: "take 1 (name @ ''.csv'') \<noteq> ''/''"
    by (cases name) simp_all
  from a have c: "cwd fs \<noteq> []" "cwd fs \<noteq> ''.''" by auto
  from a have j: "take 1 (path_join (cwd fs) (name @ ''.csv'')) = ''/''"
    using n c by (cases "cwd fs") (auto simp add: path_join_def)
  from a show "abspath fs (path_join (dirname script_file) (name @ ''.csv'')) =
              path_join (cwd fs) (name @ ''.csv'')"
  proof (elim conjE disjE)
    assume "dirname script_file = []"
    then show ?thesis
      using n by (simp add: abspath_def path_join_def)
  next
    assume "dirname script_file = ''.''"
    then show ?thesis
      using n by (simp add: abspath_def path_join_def)
  next
    assume "dirname script_file = cwd fs"
    then show ?thesis
      using j by (simp add: abspath_def)
        (simp add: path_join_def[of "cwd fs" "path_join (cwd fs) (name @ ''.csv'')"])
  qed
qed

lemma demo_run:
  "fst (parse_parallel demo_world demo_finish 20 (AppStoreParser_init ''myapp'' 1)) =
     Inr [demo_review1, demo_review2]"
  by code_simp

lemma demo_program:
  "program demo_world demo_finish demo_str demo_log ''/opt/tool/app_store_parse.py'' ''myapp'' 1 demo_fs =
     (Inr (), demo_fs\<lparr>files := (files demo_fs)
        (''/opt/tool/.log'' \<mapsto> [], ''/opt/tool/myapp.csv'' \<mapsto> demo_csv,
         ''/opt/tool/.log'' \<mapsto> demo_log)\<rparr>)"
proof -
  have p: "path_join (dirname ''/opt/tool/app_store_parse.py'') (''myapp'' @ ''.csv'') = ''/opt/tool/myapp.csv''"
    by (simp add: dirname_def path_join_def)
  have l: "LOG_FILE_PATH ''/opt/tool/app_store_parse.py'' = ''/opt/tool/.log''"
    by (simp add: LOG_FILE_PATH_def BASE_PATH_def dirname_def path_join_def)
  let ?fs0 = "demo_fs\<lparr>files := (files demo_fs)(''/opt/tool/.log'' \<mapsto> [])\<rparr>"
  have o: "open_a demo_fs ''/opt/tool/.log'' = Inr ?fs0"
    by (simp add: open_a_def abspath_def path_join_def demo_fs_def)
  have u: "\<not> unwritable ?fs0 (abspath ?fs0 ''/opt/tool/myapp.csv'')"
    by (simp add: demo_fs_def)
  have t: "abspath ?fs0 ''/opt/tool/myapp.csv'' = ''/opt/tool/myapp.csv''"
    by (simp add: abspath_def path_join_def)
  have w: "write_reviews demo_str [demo_review1, demo_review2] ''/opt/tool/myapp.csv'' ?fs0 =
      (Inr (), ?fs0\<lparr>files := (files ?fs0)(''/opt/tool/myapp.csv'' \<mapsto> demo_csv)\<rparr>)"
    using write_reviews_ok[OF u demo_encodable] unfolding demo_rows t .
  have m: "main demo_world demo_finish demo_str ''/opt/tool/app_store_parse.py'' ''myapp'' 1 ?fs0 =
      (Inr (), ?fs0\<lparr>files := (files ?fs0)(''/opt/tool/myapp.csv'' \<mapsto> demo_csv)\<rparr>)"
    unfolding main_eq demo_run p using w by simp
  show ?thesis
    unfolding program_def l o using m
    by (simp add: append_text_def abspath_def path_join_def)
qed

text \<open>
  The output is not always in the working directory: the script
  \<^verbatim>\<open>/opt/tool/app_store_parse.py\<close>, run from \<^verbatim>\<open>/home/user\<close> for the app \<open>myapp\<close>,
  writes \<^verbatim>\<open>/opt/tool/myapp.csv\<close>, and the working directory holds no \<^verbatim>\<open>myapp.csv\<close>.
\<close>

theorem output_not_in_working_directory:
  "cwd demo_fs = ''/home/user''
   \<and> fst (program demo_world demo_finish demo_str demo_log ''/opt/tool/app_store_parse.py''
           ''myapp'' 1 demo_fs) = Inr ()
   \<and> files (snd (program demo_world demo_finish demo_str demo_log ''/opt/tool/app_store_parse.py''
           ''myapp'' 1 demo_fs)) (path_join ''/home/user'' ''myapp.csv'') = None
   \<and> path_join ''/home/user'' ''myapp.csv'' = ''/home/user/myapp.csv''
   \<and> files (snd (program demo_world demo_finish demo_str demo_log ''/opt/tool/app_store_parse.py''
           ''myapp'' 1 demo_fs)) ''/opt/tool/myapp.csv'' = Some demo_csv"
  by (simp add: demo_program) (simp add: demo_fs_def path_join_def)

theorem program_output_path_witness:
  "fst (program demo_world demo_finish demo_str demo_log ''/opt/tool/app_store_parse.py''
          ''myapp'' 1 demo_fs) = Inr ()
   \<and> dirname ''/opt/tool/app_store_parse.py'' = ''/opt/tool''
   \<and> abspath demo_fs (path_join (dirname ''/opt/tool/app_store_parse.py'') (''myapp'' @ ''.csv'')) =
        ''/opt/tool/myapp.csv''
   \<and> (\<exists>reviews. fst (parse_parallel demo_world demo_finish 20 (AppStoreParser_init ''myapp'' 1)) = Inr reviews
         \<and> files (snd (program demo_world demo_finish demo_str demo_log ''/opt/tool/app_store_parse.py''
               ''myapp'' 1 demo_fs)) ''/opt/tool/myapp.csv'' =
             Some (concat (map (row_text demo_str) (header_row # map scalar_fields reviews))))
   \<and> CHR ''/'' \<notin> set ''myapp''
   \<and> basename ''/opt/tool/myapp.csv'' = ''myapp.csv''
   \<and> dirname ''/opt/tool/myapp.csv'' = ''/opt/tool''"
proof -
  obtain fs' where e: "program demo_world demo_finish demo_str demo_log ''/opt/tool/app_store_parse.py''
          ''myapp'' 1 demo_fs = (Inr (), fs')"
    using demo_program by blast
  have d: "dirname ''/opt/tool/app_store_parse.py'' = ''/opt/tool''"
    by (simp add: dirname_def)
  have p: "abspath demo_fs (path_join (dirname ''/opt/tool/app_store_parse.py'') (''myapp'' @ ''.csv'')) =
        ''/opt/tool/myapp.csv''"
    by (simp add: dirname_def path_join_def abspath_def)
  have q: "path_join (dirname ''/opt/tool/app_store_parse.py'') (''myapp'' @ ''.csv'') =
        ''/opt/tool/myapp.csv''"
    by (simp add: dirname_def path_join_def)
  have s: "CHR ''/'' \<notin> set ''myapp''" by simp
  note P = program_output_path[OF e]
  have a: "fst (program demo_world demo_finish demo_str demo_log ''/opt/tool/app_store_parse.py''
          ''myapp'' 1 demo_fs) = Inr ()"
    by (simp add: e)
  have b: "\<exists>reviews. fst (parse_parallel demo_world demo_finish 20 (AppStoreParser_init ''myapp'' 1)) = Inr reviews
         \<and> files (snd (program demo_world demo_finish demo_str demo_log ''/opt/tool/app_store_parse.py''
               ''myapp'' 1 demo_fs)) ''/opt/tool/myapp.csv'' =
             Some (concat (map (row_text demo_str) (header_row # map scalar_fields reviews)))"
    using P[THEN conjunct1] unfolding p by (simp add: e)
  note D = P[THEN conjunct2, THEN conjunct1, THEN mp, OF s, unfolded q d]
  have c1: "basename ''/opt/tool/myapp.csv'' = ''myapp.csv''"
    using D by (simp add: path_join_def)
  have c2: "dirname ''/opt/tool/myapp.csv'' = ''/opt/tool''"
    using D by (simp add: path_join_def)
  from a d p b s c1 c2 show ?thesis by (intro conjI)
qed

end
